theory Spec2Isabelle
  imports Complex_Main "HOL-Library.Sublist"
begin

section \<open>Strings\<close>

text \<open>
  The module runs under \<^verbatim>\<open>unicode_literals\<close>: every string is a sequence of code
  points, and \<^verbatim>\<open>len\<close>, \<^verbatim>\<open>.\<close> and \<^verbatim>\<open>[^>]\<close> count code points. A string is
  therefore a list of code points; \<open>u\<close> embeds an ASCII literal.
\<close>

type_synonym uchar = nat
type_synonym ustring = "nat list"

definition u :: "string \<Rightarrow> ustring" where
  "u lit = map of_char lit"

text \<open>\<^verbatim>\<open>sep.join(xs)\<close>.\<close>

fun join :: "ustring \<Rightarrow> ustring list \<Rightarrow> ustring" where
  "join sep [] = []"
| "join sep [x] = x"
| "join sep (x # y # ys) = x @ sep @ join sep (y # ys)"

text \<open>
  \<^verbatim>\<open>text.split(sep)\<close> for a non-empty separator: the occurrences of \<open>sep\<close> are found
  from the left and do not overlap; the pieces between them are returned, empty pieces
  included. (Python raises on an empty separator; the module only splits on two
  newlines.)
\<close>

function split_acc :: "ustring \<Rightarrow> ustring \<Rightarrow> ustring \<Rightarrow> ustring list" where
  "split_acc sep acc [] = [rev acc]"
| "split_acc sep acc (x # xs) =
     (if sep \<noteq> [] \<and> prefix sep (x # xs)
      then rev acc # split_acc sep [] (drop (length sep) (x # xs))
      else split_acc sep (x # acc) xs)"
  by pat_completeness auto
termination
  by (relation "measure (\<lambda>(sep, acc, rest). length rest)") auto

definition split :: "ustring \<Rightarrow> ustring \<Rightarrow> ustring list" where
  "split txt sep = split_acc sep [] txt"

text \<open>\<^verbatim>\<open>s.strip(chars)\<close>: drops the leading and the trailing characters that are in \<open>chars\<close>.\<close>

definition strip :: "ustring \<Rightarrow> ustring \<Rightarrow> ustring" where
  "strip s chars =
     rev (dropWhile (\<lambda>ch. ch \<in> set chars) (rev (dropWhile (\<lambda>ch. ch \<in> set chars) s)))"

text \<open>\<^verbatim>\<open>s.startswith(p)\<close>.\<close>

definition startswith :: "ustring \<Rightarrow> ustring \<Rightarrow> bool" where
  "startswith s p = prefix p s"

section \<open>Regular expressions\<close>

text \<open>
  The fragment of Python's \<^verbatim>\<open>re\<close> that the module's five patterns use: literal
  characters and strings, \<^verbatim>\<open>.\<close>, character sets, sequence, alternation, greedy \<^verbatim>\<open>*\<close>, \<^verbatim>\<open>+\<close> and \<^verbatim>\<open>?\<close> on a
  single character, capture groups and back-references. The matcher is the backtracking
  one of \<^verbatim>\<open>re\<close>: alternatives are tried from the left, a repetition takes as many
  characters as it can and gives them back one at a time.
\<close>

datatype cls = Lit uchar | Dot | OneOf "uchar list" | NoneOf "uchar list"

datatype rx =
    Atom cls
  | Str ustring
  | Seq "rx list"
  | Alts "rx list"
  | Star cls
  | Plus cls
  | Opt cls
  | Group nat rx
  | Backref nat

text \<open>
  Under \<^verbatim>\<open>re.IGNORECASE\<close> (without \<^verbatim>\<open>re.UNICODE\<close>, on Python 2, which the module's
  use of \<^verbatim>\<open>filter\<close> requires) only the ASCII letters are folded.
\<close>

definition lower :: "uchar \<Rightarrow> uchar" where
  "lower ch = (if 65 \<le> ch \<and> ch \<le> 90 then ch + 32 else ch)"

fun cls_ok :: "bool \<Rightarrow> cls \<Rightarrow> uchar \<Rightarrow> bool" where
  "cls_ok ic (Lit l) ch = (if ic then lower ch = lower l else ch = l)"
| "cls_ok ic Dot ch = (ch \<noteq> 10)"
| "cls_ok ic (OneOf cs) ch = (if ic then lower ch \<in> set (map lower cs) else ch \<in> set cs)"
| "cls_ok ic (NoneOf cs) ch = (if ic then lower ch \<notin> set (map lower cs) else ch \<notin> set cs)"

text \<open>Two strings are the same for the matcher: equal, or equal up to case.\<close>

definition same :: "bool \<Rightarrow> ustring \<Rightarrow> ustring \<Rightarrow> bool" where
  "same ic v w = (if ic then map lower v = map lower w else v = w)"

text \<open>
  The matcher works on a stack of what is still to be matched: a pattern, or the end of
  an open group (with the input at which the group began).
\<close>

datatype item = R rx | Close nat ustring

type_synonym groups = "nat \<Rightarrow> ustring option"

fun rsize :: "rx \<Rightarrow> nat" where
  "rsize (Atom c) = 1"
| "rsize (Str w) = 1"
| "rsize (Seq rs) = 1 + sum_list (map rsize rs)"
| "rsize (Alts rs) = 1 + sum_list (map (\<lambda>r. 1 + rsize r) rs)"
| "rsize (Star c) = 1"
| "rsize (Plus c) = 3"
| "rsize (Opt c) = 1"
| "rsize (Group n r) = 2 + rsize r"
| "rsize (Backref n) = 1"

fun isize :: "item \<Rightarrow> nat" where
  "isize (R r) = rsize r"
| "isize (Close n start) = 1"

text \<open>
  \<open>rx_match ic k s g\<close>: match the stack \<open>k\<close> at the start of \<open>s\<close>, with the groups
  \<open>g\<close> captured so far; the result is the input left after the match and the groups.
\<close>

function rx_match :: "bool \<Rightarrow> item list \<Rightarrow> ustring \<Rightarrow> groups \<Rightarrow> (ustring \<times> groups) option" where
  "rx_match ic [] s g = Some (s, g)"
| "rx_match ic (R (Atom c) # k) s g =
     (case s of
        [] \<Rightarrow> None
      | ch # rest \<Rightarrow> if cls_ok ic c ch then rx_match ic k rest g else None)"
| "rx_match ic (R (Str w) # k) s g =
     (if length w \<le> length s \<and> same ic (take (length w) s) w
      then rx_match ic k (drop (length w) s) g
      else None)"
| "rx_match ic (R (Seq rs) # k) s g = rx_match ic (map R rs @ k) s g"
| "rx_match ic (R (Alts []) # k) s g = None"
| "rx_match ic (R (Alts (r # rs)) # k) s g =
     (case rx_match ic (R r # k) s g of
        Some res \<Rightarrow> Some res
      | None \<Rightarrow> rx_match ic (R (Alts rs) # k) s g)"
| "rx_match ic (R (Star c) # k) s g =
     (case s of
        [] \<Rightarrow> rx_match ic k s g
      | ch # rest \<Rightarrow>
          if cls_ok ic c ch
          then (case rx_match ic (R (Star c) # k) rest g of
                  Some res \<Rightarrow> Some res
                | None \<Rightarrow> rx_match ic k s g)
          else rx_match ic k s g)"
| "rx_match ic (R (Plus c) # k) s g = rx_match ic (R (Atom c) # R (Star c) # k) s g"
| "rx_match ic (R (Opt c) # k) s g =
     (case s of
        [] \<Rightarrow> rx_match ic k s g
      | ch # rest \<Rightarrow>
          if cls_ok ic c ch
          then (case rx_match ic k rest g of
                  Some res \<Rightarrow> Some res
                | None \<Rightarrow> rx_match ic k s g)
          else rx_match ic k s g)"
| "rx_match ic (R (Group n r) # k) s g = rx_match ic (R r # Close n s # k) s g"
| "rx_match ic (Close n start # k) s g =
     rx_match ic k s (g(n := Some (take (length start - length s) start)))"
| "rx_match ic (R (Backref n) # k) s g =
     (case g n of
        None \<Rightarrow> None
      | Some w \<Rightarrow>
          if length w \<le> length s \<and> same ic (take (length w) s) w
          then rx_match ic k (drop (length w) s) g
          else None)"
  by pat_completeness auto
termination
  by (relation "inv_image (less_than <*lex*> less_than)
                  (\<lambda>(ic, k, s, g). (length s, sum_list (map isize k)))")
     (auto simp: comp_def)

definition match_at :: "bool \<Rightarrow> rx \<Rightarrow> ustring \<Rightarrow> (ustring \<times> groups) option" where
  "match_at ic r s = rx_match ic [R r] s (\<lambda>n. None)"

text \<open>\<^verbatim>\<open>bool(re.search(r, s))\<close>: is there a match at some position of \<open>s\<close>?\<close>

fun re_search :: "bool \<Rightarrow> rx \<Rightarrow> ustring \<Rightarrow> bool" where
  "re_search ic r [] = (match_at ic r [] \<noteq> None)"
| "re_search ic r (ch # s) =
     (if match_at ic r (ch # s) \<noteq> None then True else re_search ic r s)"

text \<open>What \<^verbatim>\<open>findall\<close> reports for a group: its text, or the empty string if it took no part.\<close>

definition group_text :: "groups \<Rightarrow> nat \<Rightarrow> ustring" where
  "group_text g n = (case g n of None \<Rightarrow> [] | Some w \<Rightarrow> w)"

text \<open>
  \<^verbatim>\<open>re.findall(r, s)\<close> for a pattern with one group: the text of group 1 in every
  match, the matches found from the left and not overlapping. After a match the scan
  goes on where the match ended, after an empty match one character further.
\<close>

function re_findall :: "bool \<Rightarrow> rx \<Rightarrow> ustring \<Rightarrow> ustring list" where
  "re_findall ic r [] =
     (case match_at ic r [] of None \<Rightarrow> [] | Some (rest, g) \<Rightarrow> [group_text g 1])"
| "re_findall ic r (ch # s) =
     (case match_at ic r (ch # s) of
        None \<Rightarrow> re_findall ic r s
      | Some (rest, g) \<Rightarrow>
          group_text g 1
            # (if length rest < length (ch # s) then re_findall ic r rest
               else re_findall ic r s))"
  by pat_completeness auto
termination
  by (relation "measure (\<lambda>(ic, r, s). length s)") auto

text \<open>\<^verbatim>\<open>re.sub(r, repl, s)\<close> for a replacement without group references.\<close>

function re_sub :: "bool \<Rightarrow> rx \<Rightarrow> ustring \<Rightarrow> ustring \<Rightarrow> ustring" where
  "re_sub ic r repl [] =
     (case match_at ic r [] of None \<Rightarrow> [] | Some (rest, g) \<Rightarrow> repl)"
| "re_sub ic r repl (ch # s) =
     (case match_at ic r (ch # s) of
        None \<Rightarrow> ch # re_sub ic r repl s
      | Some (rest, g) \<Rightarrow>
          if length rest < length (ch # s) then repl @ re_sub ic r repl rest
          else repl @ ch # re_sub ic r repl s)"
  by pat_completeness auto
termination
  by (relation "measure (\<lambda>(ic, r, repl, s). length s)") auto

text \<open>
  A string put into a pattern by \<^verbatim>\<open>format\<close> stands for itself only if none of its
  characters is special in a pattern.
\<close>

definition special_chars :: ustring where
  "special_chars = u ''.^$*+?{}[]|()'' @ [92]"

definition literal_safe :: "ustring \<Rightarrow> bool" where
  "literal_safe w = (\<forall>ch \<in> set w. ch \<notin> set special_chars)"

section \<open>Values, errors and the world outside\<close>

text \<open>A call into a library or over the network returns, or raises.\<close>

datatype 'a outcome = Raises | Returns 'a

text \<open>The exceptions that can leave the module's methods.\<close>

datatype error =
    SleepError      \<comment> \<open>\<^verbatim>\<open>time.sleep\<close> rejects a negative delay\<close>
  | ParserError     \<comment> \<open>\<^verbatim>\<open>BeautifulSoup(...)\<close> raised\<close>
  | PatternError    \<comment> \<open>the squashed term is not a literal in a pattern: outside the model\<close>
  | AttributeError
  | TypeError
  | KeyError
  | IndexError

text \<open>
  A decoded JSON body, and more generally a Python value held by an attribute that the
  module fills either with a string or with whatever the article API sent. (JSON
  numbers are integers here.)
\<close>

datatype json =
    JNull
  | JBool bool
  | JNum int
  | JStr ustring
  | JList "json list"
  | JDict "(ustring \<times> json) list"

text \<open>Python's truth value of such a value.\<close>

fun truthy :: "json \<Rightarrow> bool" where
  "truthy JNull = False"
| "truthy (JBool b) = b"
| "truthy (JNum n) = (n \<noteq> 0)"
| "truthy (JStr w) = (w \<noteq> [])"
| "truthy (JList xs) = (xs \<noteq> [])"
| "truthy (JDict kvs) = (kvs \<noteq> [])"

text \<open>
  A \<^verbatim>\<open>requests.Response\<close>: its truth value (\<^verbatim>\<open>Response.ok\<close>) and its \<^verbatim>\<open>text\<close>, if
  reading the attribute succeeds.
\<close>

record response =
  resp_ok :: bool
  resp_text :: "ustring option"

text \<open>
  The network: what the \<open>n\<close>-th \<^verbatim>\<open>requests.get\<close> of a URL does, and what
  \<^verbatim>\<open>requests.get(api, params).json()\<close> does for a token and a URL (it raises if the
  transfer or the decoding fails).
\<close>

record network =
  http_get :: "ustring \<Rightarrow> nat \<Rightarrow> response outcome"
  api_get :: "ustring \<Rightarrow> ustring \<Rightarrow> json outcome"

text \<open>\<^verbatim>\<open>serapis.config.config\<close>, read only.\<close>

record config =
  request_retry :: int
  request_seconds_before_retry :: real
  save_html :: bool
  credentials_diffbot :: ustring

text \<open>What a method does to the outside: requests sent, delays slept, lines logged.\<close>

datatype level = INFO | ERROR

record io =
  io_gets :: nat
  io_sleeps :: "real list"
  io_log :: "(level \<times> ustring) list"

text \<open>
  The tree that \<^verbatim>\<open>BeautifulSoup\<close> builds: strings and tags; of a tag's attributes the
  module looks at \<^verbatim>\<open>class\<close> and \<^verbatim>\<open>id\<close>.
\<close>

datatype node =
    NavigableString ustring
  | Tag ustring "ustring list" "ustring option" "node list"

section \<open>Collaborators\<close>

text \<open>
  \<^verbatim>\<open>serapis.language\<close>, \<^verbatim>\<open>serapis.preprocess\<close> and \<^verbatim>\<open>serapis.util\<close> are imported by
  the module and are not part of it, like the libraries \<^verbatim>\<open>html2text\<close> and \<^verbatim>\<open>bs4\<close>.
  They are parameters of the model: functions of their arguments. \<open>squashed\<close> takes
  its optional \<^verbatim>\<open>keep\<close> argument as an option. \<open>dict_items\<close> is the order in which the
  interpreter iterates over a dict, given the entries in insertion order.
\<close>

record env =
  is_english :: "ustring \<Rightarrow> bool"
  paragraph_to_sentences :: "ustring \<Rightarrow> ustring \<Rightarrow> ustring list"
  qualify_sentence :: "ustring \<Rightarrow> bool"
  clean_sentence :: "ustring \<Rightarrow> ustring \<Rightarrow> ustring \<times> ustring set"
  squashed :: "ustring \<Rightarrow> ustring option \<Rightarrow> ustring"
  get_source_from_url :: "ustring \<Rightarrow> ustring"
  html_parser_handle :: "ustring \<Rightarrow> ustring outcome"
  beautiful_soup :: "ustring \<Rightarrow> node outcome"
  dict_items :: "(ustring \<times> ustring) list \<Rightarrow> (ustring \<times> ustring) list"

section \<open>The request object\<close>

text \<open>An entry of \<^verbatim>\<open>self.sentences\<close>: the dict \<^verbatim>\<open>{'s': ..., 's_clean': ...}\<close>.\<close>

record sentence =
  sen_s :: ustring
  sen_s_clean :: ustring

text \<open>\<^verbatim>\<open>self.features\<close> once set; the empty dict it starts as is \<open>None\<close>.\<close>

record features =
  highlighted :: bool
  quotes :: bool

text \<open>\<^verbatim>\<open>self.response\<close>: a \<^verbatim>\<open>requests.Response\<close>, or the decoded body of the article API.\<close>

datatype response_value = HttpResponse response | ApiResponse json

record page_request =
  self_url :: ustring
  self_term :: ustring
  self_variants :: "ustring set"
  self_sentences :: "sentence list"
  self_text :: json
  self_html :: json
  self_features :: "features option"
  self_author :: json
  self_title :: json
  self_response :: "response_value option"

text \<open>The attributes that \<^verbatim>\<open>__init__\<close> sets before it runs anything.\<close>

definition new_request :: "ustring \<Rightarrow> ustring \<Rightarrow> page_request" where
  "new_request url trm =
     \<lparr>self_url = url, self_term = trm, self_variants = {}, self_sentences = [],
      self_text = JStr [], self_html = JStr [], self_features = None,
      self_author = JNull, self_title = JNull, self_response = None\<rparr>"

section \<open>\<^verbatim>\<open>PageRequest.request_page\<close>\<close>

definition failed_message :: "ustring \<Rightarrow> ustring" where
  "failed_message url = u ''Failed to return page for url: '' @ url"

text \<open>
  The \<^verbatim>\<open>while attempts:\<close> loop. It runs as long as the counter is not zero, so it is a
  partial function: \<open>None\<close> is a loop that never ends.
\<close>

partial_function (option) request_page_loop ::
  "network \<Rightarrow> config \<Rightarrow> ustring \<Rightarrow> int \<Rightarrow> io \<Rightarrow> (error + response option \<times> io) option" where
  "request_page_loop net cfg url attempts st =
     (if attempts \<noteq> 0 then
        (let response = (case http_get net url (io_gets st) of
                           Raises \<Rightarrow> None | Returns r \<Rightarrow> Some r);
             st1 = st\<lparr>io_gets := io_gets st + 1\<rparr>
         in if (case response of
                  None \<Rightarrow> False
                | Some r \<Rightarrow> resp_ok r \<and> resp_text r \<noteq> None)
            then Some (Inr (response, st1))
            else if request_seconds_before_retry cfg < 0 then Some (Inl SleepError)
            else request_page_loop net cfg url (attempts - 1)
                   (st1\<lparr>io_sleeps := io_sleeps st1 @ [request_seconds_before_retry cfg]\<rparr>))
      else Some (Inr (None, st\<lparr>io_log := io_log st @ [(ERROR, failed_message url)]\<rparr>)))"

text \<open>
  The method; on success it also sets \<^verbatim>\<open>self.response\<close>, which \<^verbatim>\<open>__init__\<close> sets again
  to what the method returns, and the model sets there.
\<close>

definition request_page ::
  "network \<Rightarrow> config \<Rightarrow> page_request \<Rightarrow> io \<Rightarrow> (error + response option \<times> io) option" where
  "request_page net cfg self st = request_page_loop net cfg (self_url self) (request_retry cfg) st"

section \<open>\<^verbatim>\<open>PageRequest.extract_sentences\<close>\<close>

text \<open>
  The body of the inner loop, for one candidate sentence. The state of the loop is the
  local list \<^verbatim>\<open>doc\<close> and the object.
\<close>

definition sentence_step ::
  "env \<Rightarrow> ustring list \<times> page_request \<Rightarrow> ustring \<Rightarrow> ustring list \<times> page_request" where
  "sentence_step c st sen =
     (case st of (doc, self) \<Rightarrow>
        if qualify_sentence c sen then
          (case clean_sentence c sen (self_term self) of (s_clean, variants) \<Rightarrow>
             if variants \<noteq> {} \<and> s_clean \<notin> set (map sen_s_clean (self_sentences self))
             then (doc @ [sen],
                   self\<lparr>self_variants := self_variants self \<union> variants,
                        self_sentences := self_sentences self
                          @ [\<lparr>sen_s = sen, sen_s_clean = s_clean\<rparr>]\<rparr>)
             else (doc @ [sen], self))
        else (doc, self))"

text \<open>The body of the outer loop, for one paragraph.\<close>

definition paragraph_step ::
  "env \<Rightarrow> ustring list \<times> page_request \<Rightarrow> ustring \<Rightarrow> ustring list \<times> page_request" where
  "paragraph_step c st paragraph =
     (if is_english c paragraph
      then foldl (sentence_step c) st
             (paragraph_to_sentences c paragraph (self_term (snd st)))
      else st)"

definition extract_sentences_loop ::
  "env \<Rightarrow> ustring \<Rightarrow> page_request \<Rightarrow> ustring list \<times> page_request" where
  "extract_sentences_loop c page_text self =
     foldl (paragraph_step c) ([], self) (split page_text (u ''\<newline>\<newline>''))"

text \<open>Returns the joined \<^verbatim>\<open>doc\<close> and the updated object.\<close>

definition extract_sentences ::
  "env \<Rightarrow> ustring \<Rightarrow> page_request \<Rightarrow> ustring \<times> page_request" where
  "extract_sentences c page_text self =
     (case extract_sentences_loop c page_text self of
        (doc, self') \<Rightarrow> (join (u '' '') doc, self'))"

section \<open>\<^verbatim>\<open>PageRequest.get_meta\<close>\<close>

text \<open>A dict literal: a later entry with a key already present replaces its value.\<close>

fun dict_set :: "('k \<times> 'v) list \<Rightarrow> 'k \<Rightarrow> 'v \<Rightarrow> ('k \<times> 'v) list" where
  "dict_set [] k v = [(k, v)]"
| "dict_set ((k', v') # d) k v =
     (if k' = k then (k, v) # d else (k', v') # dict_set d k v)"

definition dict_literal :: "('k \<times> 'v) list \<Rightarrow> ('k \<times> 'v) list" where
  "dict_literal entries = foldl (\<lambda>d (k, v). dict_set d k v) [] entries"

definition prop_names :: "(ustring \<times> ustring) list" where
  "prop_names = dict_literal
     [(u ''name'', u ''author''),
      (u ''property'', u ''og:author''),
      (u ''property'', u ''article:author'')]"

text \<open>
  \<^verbatim>\<open>r"< *meta.+{}=.?{}.? content=(\"[^\"]+\"|'[^']+') [^>]>".format(prop, value)\<close>
\<close>

definition m_re :: "ustring \<Rightarrow> ustring \<Rightarrow> rx" where
  "m_re prop val = Seq
     [Atom (Lit 60), Star (Lit 32), Str (u ''meta''), Plus Dot, Str prop, Atom (Lit 61),
      Opt Dot, Str val, Opt Dot, Str (u '' content=''),
      Group 1 (Alts [Seq [Atom (Lit 34), Plus (NoneOf [34]), Atom (Lit 34)],
                     Seq [Atom (Lit 39), Plus (NoneOf [39]), Atom (Lit 39)]]),
      Atom (Lit 32), Atom (NoneOf [62]), Atom (Lit 62)]"

text \<open>\<^verbatim>\<open>"< *title *>([^<]+)</ *title *>"\<close>\<close>

definition title_re :: rx where
  "title_re = Seq
     [Atom (Lit 60), Star (Lit 32), Str (u ''title''), Star (Lit 32), Atom (Lit 62),
      Group 1 (Plus (NoneOf [60])),
      Str (u ''</''), Star (Lit 32), Str (u ''title''), Star (Lit 32), Atom (Lit 62)]"

text \<open>The list \<^verbatim>\<open>authors\<close> after the loop over \<^verbatim>\<open>prop_names.items()\<close>.\<close>

definition author_candidates :: "env \<Rightarrow> ustring \<Rightarrow> ustring list" where
  "author_candidates e page_html =
     concat (map (\<lambda>(prop, val).
                    map (\<lambda>m. strip m [39, 34]) (re_findall False (m_re prop val) page_html))
                 (dict_items e prop_names))"

definition reasonable_author :: "ustring \<Rightarrow> bool" where
  "reasonable_author author = (author \<noteq> [] \<and> \<not> startswith author (u ''http''))"

definition get_meta :: "env \<Rightarrow> ustring \<Rightarrow> page_request \<Rightarrow> page_request" where
  "get_meta e page_html self =
     (let authors = filter reasonable_author (author_candidates e page_html);
          title_tags = re_findall False title_re page_html
      in self\<lparr>self_author := (case authors of [] \<Rightarrow> JNull | a # _ \<Rightarrow> JStr a),
              self_title := (case title_tags of
                               [] \<Rightarrow> JNull
                             | t # _ \<Rightarrow> JStr (strip t [32, 10]))\<rparr>)"

section \<open>\<^verbatim>\<open>PageRequest.get_html_features\<close>\<close>

definition OPENING_QUOTES :: "ustring list" where
  "OPENING_QUOTES =
     [[34], [39], u ''&quot;'', [8220], u ''&ldquo;'', [8216], u ''&lsquo;'', [171],
      u ''&laquo;'', [8249], u ''&lsaquo;'', [8222], u ''&bdquo;'', [8218], u ''&sbquo;'']"

definition CLOSING_QUOTES :: "ustring list" where
  "CLOSING_QUOTES =
     [[39], u ''&quot;'', [8221], u ''&rdquo;'', [8217], u ''&rsquo;'', [187],
      u ''&raquo;'', [8250], u ''&rsaquo;'', [8220], u ''&ldquo;'', [8216], u ''&lsquo;'']"

text \<open>\<^verbatim>\<open>r"<(em|i|b|strong|span)[^>]*> *{}[ ,:]*</\1>".format(minimal_term)\<close>\<close>

definition highlight_tags :: "ustring list" where
  "highlight_tags = [u ''em'', u ''i'', u ''b'', u ''strong'', u ''span'']"

definition highlight_re :: "ustring \<Rightarrow> rx" where
  "highlight_re minimal_term = Seq
     [Atom (Lit 60), Group 1 (Alts (map Str highlight_tags)), Star (NoneOf [62]),
      Atom (Lit 62), Star (Lit 32), Str minimal_term, Star (OneOf [32, 44, 58]),
      Str (u ''</''), Backref 1, Atom (Lit 62)]"

text \<open>
  \<^verbatim>\<open>r"<({})[^>]*> *{}[ ,:]*</({})>".format("|".join(OPENING_QUOTES), minimal_term,
  "|".join(CLOSING_QUOTES))\<close>
\<close>

definition quote_re :: "ustring \<Rightarrow> rx" where
  "quote_re minimal_term = Seq
     [Atom (Lit 60), Group 1 (Alts (map Str OPENING_QUOTES)), Star (NoneOf [62]),
      Atom (Lit 62), Star (Lit 32), Str minimal_term, Star (OneOf [32, 44, 58]),
      Str (u ''</''), Group 2 (Alts (map Str CLOSING_QUOTES)), Atom (Lit 62)]"

text \<open>
  Without a term the method returns before it sets anything. The squashed term goes
  into the pattern as it is; the model covers the terms that are literals there.
\<close>

definition get_html_features :: "env \<Rightarrow> ustring \<Rightarrow> page_request \<Rightarrow> error + page_request" where
  "get_html_features e html self =
     (if self_term self = [] then Inr self
      else
        (let minimal_html = squashed e html (Some (u ''<>/&;''));
             minimal_term = squashed e (self_term self) None
         in if \<not> literal_safe minimal_term then Inl PatternError
            else Inr (self\<lparr>self_features := Some
                   \<lparr>highlighted = re_search True (highlight_re minimal_term) minimal_html,
                    quotes = re_search True (quote_re minimal_term) minimal_html\<rparr>\<rparr>)))"

section \<open>\<^verbatim>\<open>PageRequest.parse_response\<close>\<close>

text \<open>
  What the loop over \<^verbatim>\<open>soup(['head', 'script']) + soup(class_='comments') +
  soup(id="comments")\<close> takes out of the tree: every tag with one of the two names, with
  the class or with the id, wherever it is, together with what it contains.
\<close>

fun extracted :: "node \<Rightarrow> bool" where
  "extracted (NavigableString w) = False"
| "extracted (Tag name classes ident contents) =
     (name \<in> {u ''head'', u ''script''} \<or> u ''comments'' \<in> set classes
      \<or> ident = Some (u ''comments''))"

fun prune :: "node \<Rightarrow> node" where
  "prune (NavigableString w) = NavigableString w"
| "prune (Tag name classes ident contents) =
     Tag name classes ident (map prune (filter (\<lambda>el. \<not> extracted el) contents))"

text \<open>\<^verbatim>\<open>soup.get_text()\<close>: the strings of the tree, in document order.\<close>

fun get_text :: "node \<Rightarrow> ustring" where
  "get_text (NavigableString w) = w"
| "get_text (Tag name classes ident contents) = concat (map get_text contents)"

definition fallback_message :: "ustring \<Rightarrow> ustring" where
  "fallback_message url = u ''Falling back on BeautifulSoup for '' @ [39] @ url @ [39]"

text \<open>
  The \<^verbatim>\<open>try\<close> statement of \<^verbatim>\<open>parse_response\<close>, which sets the local \<^verbatim>\<open>raw\<close>:
  \<^verbatim>\<open>html2text\<close> first; if it raises, an informational line and the text of the pruned
  tree with \<^verbatim>\<open>re.sub(r"\n+", "\n\n", ...)\<close> applied.
\<close>

definition raw_text :: "env \<Rightarrow> ustring \<Rightarrow> ustring \<Rightarrow> io \<Rightarrow> error + ustring \<times> io" where
  "raw_text e url html st =
     (case html_parser_handle e html of
        Returns raw \<Rightarrow> Inr (raw, st)
      | Raises \<Rightarrow>
          (let st1 = st\<lparr>io_log := io_log st @ [(INFO, fallback_message url)]\<rparr>
           in case beautiful_soup e html of
                Raises \<Rightarrow> Inl ParserError
              | Returns soup \<Rightarrow>
                  Inr (re_sub False (Plus (Lit 10)) [10, 10] (get_text (prune soup)), st1)))"

definition parse_response :: "env \<Rightarrow> page_request \<Rightarrow> io \<Rightarrow> error + page_request \<times> io" where
  "parse_response e self st =
     (case self_response self of
        Some (HttpResponse r) \<Rightarrow>
          (case resp_text r of
             None \<Rightarrow> Inl AttributeError
           | Some html \<Rightarrow>
               (let self1 = self\<lparr>self_html := JStr html\<rparr>
                in case raw_text e (self_url self1) html st of
                     Inl err \<Rightarrow> Inl err
                   | Inr (raw, st1) \<Rightarrow>
                       (case extract_sentences e raw self1 of
                          (doc, self2) \<Rightarrow>
                            (case get_html_features e html (self2\<lparr>self_text := JStr doc\<rparr>) of
                               Inl err \<Rightarrow> Inl err
                             | Inr self3 \<Rightarrow> Inr (get_meta e html self3, st1)))))
      | _ \<Rightarrow> Inl AttributeError)"

section \<open>\<^verbatim>\<open>PageRequest.structured\<close> and \<^verbatim>\<open>PageRequest.__init__\<close>\<close>

text \<open>
  The dict that \<^verbatim>\<open>structured\<close> returns. \<^verbatim>\<open>list(self.variants)\<close> is kept as the set it
  lists; the key \<^verbatim>\<open>html\<close> is there only under \<^verbatim>\<open>config.save_html\<close>.
\<close>

record page_record =
  st_term :: ustring
  st_url :: ustring
  st_source :: ustring
  st_doc :: json
  st_features :: "features option"
  st_variants :: "ustring set"
  st_sentences :: "sentence list"
  st_author :: json
  st_title :: json
  st_html :: "json option"

definition structured :: "env \<Rightarrow> config \<Rightarrow> page_request \<Rightarrow> page_record" where
  "structured e cfg self =
     \<lparr>st_term = self_term self,
      st_url = self_url self,
      st_source = get_source_from_url e (self_url self),
      st_doc = self_text self,
      st_features = self_features self,
      st_variants = self_variants self,
      st_sentences = self_sentences self,
      st_author = self_author self,
      st_title = self_title self,
      st_html = (if save_html cfg then Some (self_html self) else None)\<rparr>"

text \<open>
  \<^verbatim>\<open>PageRequest(url, term, run)\<close>. The outer \<open>option\<close> is \<open>None\<close> when the retry loop
  does not end.
\<close>

definition page_request_init ::
  "env \<Rightarrow> network \<Rightarrow> config \<Rightarrow> ustring \<Rightarrow> ustring \<Rightarrow> bool \<Rightarrow> io
     \<Rightarrow> (error + page_request \<times> io) option" where
  "page_request_init e net cfg url trm run st =
     (let self = new_request url trm
      in if run then
           (case request_page net cfg self st of
              None \<Rightarrow> None
            | Some (Inl err) \<Rightarrow> Some (Inl err)
            | Some (Inr (resp, st1)) \<Rightarrow>
                (let self1 = self\<lparr>self_response := map_option HttpResponse resp\<rparr>
                 in case resp of
                      None \<Rightarrow> Some (Inr (self1, st1))
                    | Some r \<Rightarrow>
                        if resp_ok r then Some (parse_response e self1 st1)
                        else Some (Inr (self1, st1))))
         else Some (Inr (self, st)))"

section \<open>\<^verbatim>\<open>DiffbotRequest\<close>\<close>

text \<open>
  \<^verbatim>\<open>DiffbotRequest.request_page\<close>: one call, no retry. Everything between \<^verbatim>\<open>try\<close> and
  \<^verbatim>\<open>except\<close> that raises ends in the error line and \<^verbatim>\<open>None\<close>: the transfer, the
  decoding, \<^verbatim>\<open>'objects' in response\<close> on a body that has no \<^verbatim>\<open>in\<close>, indexing a body
  that is not a dict, and the two assertions.
\<close>

definition diffbot_request_page ::
  "network \<Rightarrow> config \<Rightarrow> page_request \<Rightarrow> io \<Rightarrow> json option \<times> io" where
  "diffbot_request_page net cfg self st =
     (let st1 = st\<lparr>io_gets := io_gets st + 1\<rparr>;
          failed = (None, st1\<lparr>io_log := io_log st1 @ [(ERROR, failed_message (self_url self))]\<rparr>)
      in case api_get net (credentials_diffbot cfg) (self_url self) of
           Raises \<Rightarrow> failed
         | Returns body \<Rightarrow>
             (case body of
                JDict kvs \<Rightarrow>
                  (case map_of kvs (u ''objects'') of
                     None \<Rightarrow> failed
                   | Some objects \<Rightarrow> if truthy objects then (Some body, st1) else failed)
              | _ \<Rightarrow> failed))"

text \<open>\<^verbatim>\<open>x[0]\<close> and \<^verbatim>\<open>x['objects']\<close> and \<^verbatim>\<open>obj.get(key)\<close> on a decoded value.\<close>

fun first_item :: "json \<Rightarrow> error + json" where
  "first_item (JList []) = Inl IndexError"
| "first_item (JList (x # xs)) = Inr x"
| "first_item (JStr []) = Inl IndexError"
| "first_item (JStr (ch # w)) = Inr (JStr [ch])"
| "first_item (JDict kvs) = Inl KeyError"
| "first_item other = Inl TypeError"

fun subscript :: "json \<Rightarrow> ustring \<Rightarrow> error + json" where
  "subscript (JDict kvs) key = (case map_of kvs key of None \<Rightarrow> Inl KeyError | Some v \<Rightarrow> Inr v)"
| "subscript other key = Inl TypeError"

fun dict_get :: "json \<Rightarrow> ustring \<Rightarrow> error + json" where
  "dict_get (JDict kvs) key = (case map_of kvs key of None \<Rightarrow> Inr JNull | Some v \<Rightarrow> Inr v)"
| "dict_get other key = Inl AttributeError"

text \<open>
  \<^verbatim>\<open>DiffbotRequest.parse_response\<close>. The four attributes are set from the first object;
  then \<^verbatim>\<open>extract_sentences\<close> runs on \<^verbatim>\<open>self.html\<close> (which must be a string to be split)
  and what it returns is dropped; then \<^verbatim>\<open>get_html_features\<close> runs on \<^verbatim>\<open>self.html\<close>.
\<close>

definition diffbot_parse_response :: "env \<Rightarrow> page_request \<Rightarrow> error + page_request" where
  "diffbot_parse_response e self =
     (case self_response self of
        Some (ApiResponse body) \<Rightarrow>
          (case subscript body (u ''objects'') of
             Inl err \<Rightarrow> Inl err
           | Inr objects \<Rightarrow>
               (case first_item objects of
                  Inl err \<Rightarrow> Inl err
                | Inr obj \<Rightarrow>
                    (case (dict_get obj (u ''text''), dict_get obj (u ''html''),
                           dict_get obj (u ''author''), dict_get obj (u ''title'')) of
                       (Inr txt, Inr html, Inr author, Inr title) \<Rightarrow>
                         (let self1 = self\<lparr>self_text := txt, self_html := html,
                                           self_author := author, self_title := title\<rparr>
                          in case html of
                               JStr h \<Rightarrow>
                                 get_html_features e h (snd (extract_sentences e h self1))
                             | _ \<Rightarrow> Inl AttributeError)
                     | _ \<Rightarrow> Inl AttributeError)))
      | _ \<Rightarrow> Inl TypeError)"

text \<open>\<^verbatim>\<open>DiffbotRequest(url, term, run)\<close>: the inherited \<^verbatim>\<open>__init__\<close> with the two overrides.\<close>

definition diffbot_request_init ::
  "env \<Rightarrow> network \<Rightarrow> config \<Rightarrow> ustring \<Rightarrow> ustring \<Rightarrow> bool \<Rightarrow> io \<Rightarrow> error + page_request \<times> io" where
  "diffbot_request_init e net cfg url trm run st =
     (let self = new_request url trm
      in if run then
           (case diffbot_request_page net cfg self st of
              (resp, st1) \<Rightarrow>
                (let self1 = self\<lparr>self_response := map_option ApiResponse resp\<rparr>
                 in case resp of
                      None \<Rightarrow> Inr (self1, st1)
                    | Some body \<Rightarrow>
                        if truthy body
                        then (case diffbot_parse_response e self1 of
                                Inl err \<Rightarrow> Inl err
                              | Inr self2 \<Rightarrow> Inr (self2, st1))
                        else Inr (self1, st1)))
         else Inr (self, st))"

section \<open>A sample environment\<close>

text \<open>
  Simple stand-ins for the collaborators, the network and the configuration, to run the
  model on: every paragraph is English and is its own single candidate sentence, a
  sentence qualifies if it is not empty, it is its own normalized form, and its only
  variant is the term itself, found if the sentence starts with it.
\<close>

definition sample_env :: env where
  "sample_env =
     \<lparr>is_english = (\<lambda>paragraph. True),
      paragraph_to_sentences = (\<lambda>paragraph trm. [paragraph]),
      qualify_sentence = (\<lambda>sen. sen \<noteq> []),
      clean_sentence = (\<lambda>sen trm. (sen, if prefix trm sen then {trm} else {})),
      squashed = (\<lambda>txt keep. txt),
      get_source_from_url = (\<lambda>url. url),
      html_parser_handle = (\<lambda>html. Returns html),
      beautiful_soup = (\<lambda>html. Raises),
      dict_items = (\<lambda>d. d)\<rparr>"

text \<open>A network on which every request of a page returns \<open>page\<close>.\<close>

definition sample_net :: "ustring \<Rightarrow> network" where
  "sample_net page =
     \<lparr>http_get = (\<lambda>url n. Returns \<lparr>resp_ok = True, resp_text = Some page\<rparr>),
      api_get = (\<lambda>token url. Returns (JDict [(u ''objects'', JList [JDict
                  [(u ''text'', JStr (u ''txt'')), (u ''html'', JStr page),
                   (u ''author'', JStr (u ''au'')), (u ''title'', JStr (u ''ti''))]])]))\<rparr>"

text \<open>A network on which every request raises.\<close>

definition dead_net :: network where
  "dead_net = \<lparr>http_get = (\<lambda>url n. Raises), api_get = (\<lambda>token url. Raises)\<rparr>"

definition sample_config :: config where
  "sample_config =
     \<lparr>request_retry = 3, request_seconds_before_retry = 1, save_html = False,
      credentials_diffbot = u ''token''\<rparr>"

definition no_io :: io where
  "no_io = \<lparr>io_gets = 0, io_sleeps = [], io_log = []\<rparr>"

text \<open>The object that a constructor call leaves, if it returns one.\<close>

definition constructed :: "(error + page_request \<times> io) option \<Rightarrow> page_request option" where
  "constructed res = (case res of Some (Inr (self, st)) \<Rightarrow> Some self | _ \<Rightarrow> None)"

text \<open>A sample tree: a head, a body with the page as its text, a comments block, a script.\<close>

definition sample_soup :: "ustring \<Rightarrow> node" where
  "sample_soup page =
     Tag (u ''[document]'') [] None
       [Tag (u ''html'') [] None
          [Tag (u ''head'') [] None [Tag (u ''title'') [] None [NavigableString (u ''T'')]],
           Tag (u ''body'') [] None
             [NavigableString page,
              Tag (u ''div'') [u ''box'', u ''comments''] None [NavigableString (u ''first!'')],
              Tag (u ''script'') [] None [NavigableString (u ''var x;'')],
              Tag (u ''ol'') [] (Some (u ''comments'')) [NavigableString (u ''+1'')]]]]"

definition fallback_env :: env where
  "fallback_env = sample_env
     \<lparr>html_parser_handle := (\<lambda>html. Raises),
      beautiful_soup := (\<lambda>html. Returns (sample_soup html))\<rparr>"


section \<open>Notions used in the statements\<close>

text \<open>
  The sentences that reach \<^verbatim>\<open>doc.append\<close>: the qualified candidates of the English
  paragraphs, in the order of the two loops.
\<close>

definition qualified_of :: "env \<Rightarrow> ustring \<Rightarrow> ustring \<Rightarrow> ustring list" where
  "qualified_of e trm paragraph =
     (if is_english e paragraph
      then filter (qualify_sentence e) (paragraph_to_sentences e paragraph trm)
      else [])"

definition qualified_sentences :: "env \<Rightarrow> ustring \<Rightarrow> ustring \<Rightarrow> ustring list" where
  "qualified_sentences e trm page_text =
     concat (map (qualified_of e trm) (split page_text (u ''\<newline>\<newline>'')))"

text \<open>What one step does to the object: nothing, or one sentence more.\<close>

definition retains :: "env \<Rightarrow> page_request \<Rightarrow> ustring \<Rightarrow> bool" where
  "retains e self sen =
     (qualify_sentence e sen
      \<and> snd (clean_sentence e sen (self_term self)) \<noteq> {}
      \<and> fst (clean_sentence e sen (self_term self))
           \<notin> set (map sen_s_clean (self_sentences self)))"

text \<open>The entry that a sentence gets when it is retained.\<close>

definition entry :: "env \<Rightarrow> ustring \<Rightarrow> ustring \<Rightarrow> sentence" where
  "entry e trm sen = \<lparr>sen_s = sen, sen_s_clean = fst (clean_sentence e sen trm)\<rparr>"

text \<open>
  What a run of steps has added to an object \<open>self\<close>: entries of qualified sentences
  with variants, the originals a subsequence of what went into \<open>doc\<close>, and the variants
  of exactly these sentences.
\<close>

definition added :: "env \<Rightarrow> ustring list \<times> page_request \<Rightarrow> ustring list \<times> page_request \<Rightarrow> bool" where
  "added e st st' =
     (\<exists>new. self_sentences (snd st') = self_sentences (snd st) @ map (entry e (self_term (snd st))) new
        \<and> subseq new (drop (length (fst st)) (fst st'))
        \<and> take (length (fst st)) (fst st') = fst st
        \<and> list_all (\<lambda>sen. snd (clean_sentence e sen (self_term (snd st))) \<noteq> {}) new
        \<and> self_variants (snd st')
            = self_variants (snd st) \<union> \<Union> (set (map (\<lambda>sen. snd (clean_sentence e sen (self_term (snd st)))) new))
        \<and> self_term (snd st') = self_term (snd st))"

text \<open>Whether the loop counts an attempt as failed.\<close>

definition attempt_fails :: "response outcome \<Rightarrow> bool" where
  "attempt_fails res =
     (case res of Raises \<Rightarrow> True | Returns r \<Rightarrow> \<not> (resp_ok r \<and> resp_text r \<noteq> None))"

text \<open>\<^verbatim>\<open>obj.get(key)\<close> on a dict.\<close>

definition field :: "(ustring \<times> json) list \<Rightarrow> ustring \<Rightarrow> json" where
  "field kvs key = (case map_of kvs key of None \<Rightarrow> JNull | Some v \<Rightarrow> v)"

text \<open>What \<open>get_html_features\<close> computes for a term and a page.\<close>

definition features_of :: "env \<Rightarrow> ustring \<Rightarrow> ustring \<Rightarrow> features" where
  "features_of e trm html =
     \<lparr>highlighted = re_search True (highlight_re (squashed e trm None))
                       (squashed e html (Some (u ''<>/&;''))),
      quotes = re_search True (quote_re (squashed e trm None))
                 (squashed e html (Some (u ''<>/&;'')))\<rparr>"

text \<open>The tags and strings below a node.\<close>

fun descendants :: "node \<Rightarrow> node list" where
  "descendants (NavigableString w) = []"
| "descendants (Tag name classes ident contents) =
     concat (map (\<lambda>el. el # descendants el) contents)"

text \<open>
  What it means for a stack of patterns to match at the start of an input, said
  without the order in which the matcher tries: \<open>can_match ic k s g s' g'\<close> if \<open>k\<close>
  can consume \<open>s\<close> down to \<open>s'\<close>, taking the groups from \<open>g\<close> to \<open>g'\<close>.
\<close>

inductive can_match :: "bool \<Rightarrow> item list \<Rightarrow> ustring \<Rightarrow> groups \<Rightarrow> ustring \<Rightarrow> groups \<Rightarrow> bool"
  for ic :: bool where
  Done: "can_match ic [] s g s g"
| AtomR: "cls_ok ic c ch \<Longrightarrow> can_match ic k rest g s' g'
    \<Longrightarrow> can_match ic (R (Atom c) # k) (ch # rest) g s' g'"
| StrR: "same ic v w \<Longrightarrow> can_match ic k s g s' g'
    \<Longrightarrow> can_match ic (R (Str w) # k) (v @ s) g s' g'"
| SeqR: "can_match ic (map R rs @ k) s g s' g' \<Longrightarrow> can_match ic (R (Seq rs) # k) s g s' g'"
| AltsHere: "can_match ic (R r # k) s g s' g' \<Longrightarrow> can_match ic (R (Alts (r # rs)) # k) s g s' g'"
| AltsLater: "can_match ic (R (Alts rs) # k) s g s' g'
    \<Longrightarrow> can_match ic (R (Alts (r # rs)) # k) s g s' g'"
| StarMore: "cls_ok ic c ch \<Longrightarrow> can_match ic (R (Star c) # k) rest g s' g'
    \<Longrightarrow> can_match ic (R (Star c) # k) (ch # rest) g s' g'"
| StarDone: "can_match ic k s g s' g' \<Longrightarrow> can_match ic (R (Star c) # k) s g s' g'"
| PlusR: "can_match ic (R (Atom c) # R (Star c) # k) s g s' g'
    \<Longrightarrow> can_match ic (R (Plus c) # k) s g s' g'"
| OptSome: "cls_ok ic c ch \<Longrightarrow> can_match ic k rest g s' g'
    \<Longrightarrow> can_match ic (R (Opt c) # k) (ch # rest) g s' g'"
| OptNone: "can_match ic k s g s' g' \<Longrightarrow> can_match ic (R (Opt c) # k) s g s' g'"
| GroupR: "can_match ic (R r # Close n s # k) s g s' g'
    \<Longrightarrow> can_match ic (R (Group n r) # k) s g s' g'"
| CloseR: "can_match ic k s (g(n := Some (take (length start - length s) start))) s' g'
    \<Longrightarrow> can_match ic (Close n start # k) s g s' g'"
| BackrefR: "g n = Some w \<Longrightarrow> same ic v w \<Longrightarrow> can_match ic k s g s' g'
    \<Longrightarrow> can_match ic (R (Backref n) # k) (v @ s) g s' g'"



text \<open>The candidates that one of the two patterns finds.\<close>

definition found :: "ustring \<Rightarrow> ustring \<Rightarrow> ustring \<Rightarrow> ustring list" where
  "found prop val page_html =
     map (\<lambda>m. strip m [39, 34]) (re_findall False (m_re prop val) page_html)"

section \<open>Sentence extraction\<close>

lemma sentence_step_term: "self_term (snd (sentence_step e st sen)) = self_term (snd st)"
  by (cases st) (simp add: sentence_step_def split: prod.splits)

lemma sentences_fold_term:
  "self_term (snd (foldl (sentence_step e) st sens)) = self_term (snd st)"
  by (induction sens arbitrary: st) (simp_all add: sentence_step_term)

lemma paragraph_step_term: "self_term (snd (paragraph_step e st p)) = self_term (snd st)"
  by (simp add: paragraph_step_def sentences_fold_term)

lemma paragraphs_fold_term:
  "self_term (snd (foldl (paragraph_step e) st ps)) = self_term (snd st)"
  by (induction ps arbitrary: st) (simp_all add: paragraph_step_term)

lemma sentence_step_doc:
  "fst (sentence_step e st sen) = fst st @ filter (qualify_sentence e) [sen]"
  by (cases st) (simp add: sentence_step_def split: prod.splits)

lemma sentences_fold_doc:
  "fst (foldl (sentence_step e) st sens) = fst st @ filter (qualify_sentence e) sens"
  by (induction sens arbitrary: st) (simp_all add: sentence_step_doc)

lemma paragraph_step_doc:
  "fst (paragraph_step e st p) = fst st @ qualified_of e (self_term (snd st)) p"
  by (simp add: paragraph_step_def qualified_of_def sentences_fold_doc)

lemma paragraphs_fold_doc:
  "fst (foldl (paragraph_step e) st ps)
     = fst st @ concat (map (qualified_of e (self_term (snd st))) ps)"
  by (induction ps arbitrary: st) (simp_all add: paragraph_step_doc paragraph_step_term)

lemma extract_sentences_eq:
  "extract_sentences e page_text self
     = (join (u '' '') (fst (extract_sentences_loop e page_text self)),
        snd (extract_sentences_loop e page_text self))"
  by (simp add: extract_sentences_def split: prod.splits)

lemma extract_sentences_doc:
  "fst (extract_sentences e page_text self)
     = join (u '' '') (qualified_sentences e (self_term self) page_text)"
  by (simp add: extract_sentences_eq extract_sentences_loop_def qualified_sentences_def
      paragraphs_fold_doc)

lemma sentence_step_snd:
  "snd (sentence_step e (doc, self) sen) =
     (if retains e self sen
      then self\<lparr>self_variants :=
                   self_variants self \<union> snd (clean_sentence e sen (self_term self)),
                self_sentences := self_sentences self
                   @ [\<lparr>sen_s = sen,
                       sen_s_clean = fst (clean_sentence e sen (self_term self))\<rparr>]\<rparr>
      else self)"
  by (simp add: sentence_step_def retains_def split: prod.splits)

text \<open>An invariant of the loops: any property of the object that each step keeps.\<close>

lemma sentences_fold_invariant:
  assumes "\<And>st sen. P (snd st) \<Longrightarrow> P (snd (sentence_step e st sen))"
  shows "P (snd st) \<Longrightarrow> P (snd (foldl (sentence_step e) st sens))"
  by (induction sens arbitrary: st) (simp_all add: assms)

lemma paragraphs_fold_invariant:
  assumes "\<And>st sen. P (snd st) \<Longrightarrow> P (snd (sentence_step e st sen))"
  shows "P (snd st) \<Longrightarrow> P (snd (foldl (paragraph_step e) st ps))"
proof (induction ps arbitrary: st)
  case Nil
  then show ?case by simp
next
  case (Cons p ps)
  have "P (snd (paragraph_step e st p))"
    using Cons.prems sentences_fold_invariant [of P e st, OF assms]
    by (simp add: paragraph_step_def)
  then show ?case using Cons.IH by simp
qed

lemma sentence_step_distinct:
  "distinct (map sen_s_clean (self_sentences (snd st)))
   \<Longrightarrow> distinct (map sen_s_clean (self_sentences (snd (sentence_step e st sen))))"
  by (cases st) (simp add: sentence_step_snd retains_def)

lemma added_refl: "added e st st"
  unfolding added_def by (rule exI [of _ "[]"]) simp

lemma added_step:
  assumes "added e st st'"
  shows "added e st (sentence_step e st' sen)"
proof -
  obtain doc self where st: "st = (doc, self)" by (cases st)
  obtain doc' self' where st': "st' = (doc', self')" by (cases st')
  from assms st st' obtain new where new:
    "self_sentences self' = self_sentences self @ map (entry e (self_term self)) new"
    "subseq new (drop (length doc) doc')"
    "take (length doc) doc' = doc"
    "list_all (\<lambda>sen. snd (clean_sentence e sen (self_term self)) \<noteq> {}) new"
    "self_variants self'
       = self_variants self \<union> \<Union> (set (map (\<lambda>sen. snd (clean_sentence e sen (self_term self))) new))"
    "self_term self' = self_term self"
    unfolding added_def by auto
  have len: "length doc \<le> length doc'"
    using new(3) by (metis length_take min.cobounded1)
  show ?thesis
  proof (cases "retains e self' sen")
    case True
    then have step: "sentence_step e st' sen =
        (doc' @ [sen],
         self'\<lparr>self_variants := self_variants self' \<union> snd (clean_sentence e sen (self_term self')),
               self_sentences := self_sentences self' @ [entry e (self_term self') sen]\<rparr>)"
      using sentence_step_snd [of e doc' self' sen] sentence_step_doc [of e st' sen]
      by (simp add: st' prod_eq_iff retains_def entry_def)
    have "subseq (new @ [sen]) (drop (length doc) doc' @ [sen])"
      using new(2) by (simp add: subseq_append)
    then show ?thesis
      unfolding added_def st step using new len True
      by (intro exI [of _ "new @ [sen]"]) (auto simp: retains_def)
  next
    case False
    then have step: "sentence_step e st' sen = (doc' @ filter (qualify_sentence e) [sen], self')"
      using sentence_step_snd [of e doc' self' sen] sentence_step_doc [of e st' sen]
      by (simp add: st' prod_eq_iff)
    have "subseq new (drop (length doc) doc' @ filter (qualify_sentence e) [sen])"
      using new(2) by (rule list_emb_prefix)
    then show ?thesis
      unfolding added_def st using new len
      by (intro exI [of _ new]) (simp add: step)
  qed
qed


lemma added_sentences_fold:
  "added e st st' \<Longrightarrow> added e st (foldl (sentence_step e) st' sens)"
  by (induction sens arbitrary: st') (simp_all add: added_step)

lemma added_paragraph_step:
  "added e st st' \<Longrightarrow> added e st (paragraph_step e st' p)"
  by (simp add: paragraph_step_def added_sentences_fold)

lemma added_paragraphs_fold:
  "added e st st' \<Longrightarrow> added e st (foldl (paragraph_step e) st' ps)"
  by (induction ps arbitrary: st') (simp_all add: added_paragraph_step)

lemma added_extract_sentences_loop:
  "added e ([], self) (extract_sentences_loop e page_text self)"
  unfolding extract_sentences_loop_def by (rule added_paragraphs_fold) (rule added_refl)

lemma extract_sentences_loop_doc:
  "fst (extract_sentences_loop e page_text self)
     = qualified_sentences e (self_term self) page_text"
  by (simp add: extract_sentences_loop_def qualified_sentences_def paragraphs_fold_doc)

text \<open>What \<open>extract_sentences\<close> leaves in the object, in one statement.\<close>

lemma extract_sentences_added:
  obtains new where
    "self_sentences (snd (extract_sentences e page_text self))
       = self_sentences self @ map (entry e (self_term self)) new"
    "subseq new (qualified_sentences e (self_term self) page_text)"
    "list_all (\<lambda>sen. snd (clean_sentence e sen (self_term self)) \<noteq> {}) new"
    "self_variants (snd (extract_sentences e page_text self))
       = self_variants self
         \<union> \<Union> (set (map (\<lambda>sen. snd (clean_sentence e sen (self_term self))) new))"
proof -
  from added_extract_sentences_loop [of e self page_text]
  obtain new where
    "self_sentences (snd (extract_sentences_loop e page_text self))
       = self_sentences self @ map (entry e (self_term self)) new"
    "subseq new (fst (extract_sentences_loop e page_text self))"
    "list_all (\<lambda>sen. snd (clean_sentence e sen (self_term self)) \<noteq> {}) new"
    "self_variants (snd (extract_sentences_loop e page_text self))
       = self_variants self
         \<union> \<Union> (set (map (\<lambda>sen. snd (clean_sentence e sen (self_term self))) new))"
    unfolding added_def by auto
  then show ?thesis
    using that [of new] by (simp add: extract_sentences_eq extract_sentences_loop_doc)
qed

lemma extract_sentences_other_fields:
  "self_url (snd (extract_sentences e page_text self)) = self_url self"
  "self_term (snd (extract_sentences e page_text self)) = self_term self"
  "self_text (snd (extract_sentences e page_text self)) = self_text self"
  "self_html (snd (extract_sentences e page_text self)) = self_html self"
  "self_features (snd (extract_sentences e page_text self)) = self_features self"
  "self_author (snd (extract_sentences e page_text self)) = self_author self"
  "self_title (snd (extract_sentences e page_text self)) = self_title self"
  "self_response (snd (extract_sentences e page_text self)) = self_response self"
proof -
  let ?P = "\<lambda>s. self_url s = self_url self \<and> self_term s = self_term self
    \<and> self_text s = self_text self \<and> self_html s = self_html self
    \<and> self_features s = self_features self \<and> self_author s = self_author self
    \<and> self_title s = self_title self \<and> self_response s = self_response self"
  have step: "\<And>st sen. ?P (snd st) \<Longrightarrow> ?P (snd (sentence_step e st sen))"
    subgoal for st sen by (cases st) (simp add: sentence_step_snd)
    done
  have "?P (snd (foldl (paragraph_step e) ([], self) (split page_text (u ''\<newline>\<newline>''))))"
    by (rule paragraphs_fold_invariant [of ?P e, OF step]) simp_all
  then have P: "?P (snd (extract_sentences e page_text self))"
    by (simp add: extract_sentences_eq extract_sentences_loop_def)
  from P show "self_url (snd (extract_sentences e page_text self)) = self_url self" by simp
  from P show "self_term (snd (extract_sentences e page_text self)) = self_term self" by simp
  from P show "self_text (snd (extract_sentences e page_text self)) = self_text self" by simp
  from P show "self_html (snd (extract_sentences e page_text self)) = self_html self" by simp
  from P show "self_features (snd (extract_sentences e page_text self)) = self_features self" by simp
  from P show "self_author (snd (extract_sentences e page_text self)) = self_author self" by simp
  from P show "self_title (snd (extract_sentences e page_text self)) = self_title self" by simp
  from P show "self_response (snd (extract_sentences e page_text self)) = self_response self" by simp
qed

lemma paragraphs_fold_distinct:
  "distinct (map sen_s_clean (self_sentences (snd st)))
   \<Longrightarrow> distinct (map sen_s_clean (self_sentences (snd (foldl (paragraph_step e) st ps))))"
  by (rule paragraphs_fold_invariant
        [of "\<lambda>s. distinct (map sen_s_clean (self_sentences s))" e]) 
     (simp_all add: sentence_step_distinct)

lemma sentences_fold_distinct:
  "distinct (map sen_s_clean (self_sentences (snd st)))
   \<Longrightarrow> distinct (map sen_s_clean (self_sentences (snd (foldl (sentence_step e) st sens))))"
  by (rule sentences_fold_invariant
        [of "\<lambda>s. distinct (map sen_s_clean (self_sentences s))" e]) 
     (simp_all add: sentence_step_distinct)

lemma extract_sentences_distinct:
  "distinct (map sen_s_clean (self_sentences self))
   \<Longrightarrow> distinct (map sen_s_clean (self_sentences (snd (extract_sentences e page_text self))))"
  using paragraphs_fold_distinct [of "([], self)" e]
  by (simp add: extract_sentences_eq extract_sentences_loop_def)

section \<open>The other methods leave the sentences alone\<close>

lemma get_html_features_fields:
  assumes "get_html_features e html self = Inr self'"
  shows "self_sentences self' = self_sentences self"
    and "self_variants self' = self_variants self"
    and "self_text self' = self_text self"
    and "self_html self' = self_html self"
    and "self_author self' = self_author self"
    and "self_title self' = self_title self"
    and "self_url self' = self_url self"
    and "self_term self' = self_term self"
    and "self_response self' = self_response self"
  using assms by (auto simp: get_html_features_def Let_def split: if_splits)

lemma get_meta_fields:
  "self_sentences (get_meta e html self) = self_sentences self"
  "self_variants (get_meta e html self) = self_variants self"
  "self_text (get_meta e html self) = self_text self"
  "self_html (get_meta e html self) = self_html self"
  "self_features (get_meta e html self) = self_features self"
  "self_url (get_meta e html self) = self_url self"
  "self_term (get_meta e html self) = self_term self"
  "self_response (get_meta e html self) = self_response self"
  by (simp_all add: get_meta_def Let_def)

lemma parse_response_InrE:
  assumes "parse_response e self st = Inr (self', st')"
  obtains r html raw self3 where
    "self_response self = Some (HttpResponse r)"
    "resp_text r = Some html"
    "raw_text e (self_url self) html st = Inr (raw, st')"
    "get_html_features e html
       ((snd (extract_sentences e raw (self\<lparr>self_html := JStr html\<rparr>)))
          \<lparr>self_text := JStr (fst (extract_sentences e raw (self\<lparr>self_html := JStr html\<rparr>)))\<rparr>)
       = Inr self3"
    "self' = get_meta e html self3"
  using assms unfolding parse_response_def
  by (auto split: option.splits response_value.splits sum.splits prod.splits simp: Let_def)

section \<open>The retry loop\<close>

lemma request_page_loop_usable_aux:
  assumes "request_page_loop net cfg url attempts st = Some y"
  shows "\<forall>r st'. y = Inr (Some r, st') \<longrightarrow> resp_ok r \<and> resp_text r \<noteq> None"
  by (rule request_page_loop.raw_induct [OF _ assms])
     (auto simp: Let_def split: if_splits outcome.splits option.splits)

lemma request_page_loop_returns_usable:
  "request_page_loop net cfg url attempts st = Some (Inr (Some r, st'))
   \<Longrightarrow> resp_ok r \<and> resp_text r \<noteq> None"
  using request_page_loop_usable_aux by blast

lemma request_page_loop_all_fail:
  assumes "0 \<le> request_seconds_before_retry cfg"
  shows "(\<forall>k < n. attempt_fails (http_get net url (io_gets st + k)))
    \<Longrightarrow> request_page_loop net cfg url (int n) st
      = Some (Inr (None,
          st\<lparr>io_gets := io_gets st + n,
             io_sleeps := io_sleeps st @ replicate n (request_seconds_before_retry cfg),
             io_log := io_log st @ [(ERROR, failed_message url)]\<rparr>))"
proof (induction n arbitrary: st)
  case 0
  show ?case by (subst request_page_loop.simps) simp
next
  case (Suc n)
  let ?st = "st\<lparr>io_gets := io_gets st + 1,
                 io_sleeps := io_sleeps st @ [request_seconds_before_retry cfg]\<rparr>"
  have first: "attempt_fails (http_get net url (io_gets st))"
    using Suc.prems [rule_format, of 0] by simp
  have rest: "\<forall>k < n. attempt_fails (http_get net url (io_gets ?st + k))"
  proof (intro allI impI)
    fix k assume "k < n"
    then have "Suc k < Suc n" by simp
    with Suc.prems have "attempt_fails (http_get net url (io_gets st + Suc k))" by blast
    then show "attempt_fails (http_get net url (io_gets ?st + k))" by simp
  qed
  have "request_page_loop net cfg url (int (Suc n)) st
          = request_page_loop net cfg url (int n) ?st"
    using first assms
    by (subst request_page_loop.simps)
       (auto simp: attempt_fails_def Let_def split: outcome.splits)
  also have "\<dots> = Some (Inr (None,
          ?st\<lparr>io_gets := io_gets ?st + n,
             io_sleeps := io_sleeps ?st @ replicate n (request_seconds_before_retry cfg),
             io_log := io_log ?st @ [(ERROR, failed_message url)]\<rparr>))"
    by (rule Suc.IH [OF rest])
  finally show ?case by (simp add: replicate_app_Cons_same)
qed

lemma request_page_loop_first_succeeds:
  assumes "http_get net url (io_gets st) = Returns r" "resp_ok r" "resp_text r \<noteq> None"
    "attempts \<noteq> 0"
  shows "request_page_loop net cfg url attempts st
           = Some (Inr (Some r, st\<lparr>io_gets := io_gets st + 1\<rparr>))"
  using assms by (subst request_page_loop.simps) (simp add: Let_def)

text \<open>
  Claim C2. If every attempt to fetch the URL fails, \<open>request_page\<close> ends, raises
  nothing and returns no response; it has sent exactly \<^verbatim>\<open>request_retry\<close> requests, slept
  after each, and logged exactly one line, an error. (The retry count and the delay of
  the configuration are not negative.)
\<close>

theorem request_page_exhausts_retries:
  assumes "0 \<le> request_retry cfg"
    and "0 \<le> request_seconds_before_retry cfg"
    and "\<forall>n. attempt_fails (http_get net (self_url self) n)"
  shows "request_page net cfg self st
    = Some (Inr (None,
        st\<lparr>io_gets := io_gets st + nat (request_retry cfg),
           io_sleeps := io_sleeps st
             @ replicate (nat (request_retry cfg)) (request_seconds_before_retry cfg),
           io_log := io_log st @ [(ERROR, failed_message (self_url self))]\<rparr>))"
  using request_page_loop_all_fail [OF assms(2), of "nat (request_retry cfg)" net "self_url self" st]
    assms(1,3)
  by (simp add: request_page_def)

theorem request_page_exhausts_retries_witness:
  "0 \<le> request_retry sample_config \<and> 0 \<le> request_seconds_before_retry sample_config
   \<and> attempt_fails (http_get dead_net (u ''http://a'') 7)
   \<and> request_page dead_net sample_config (new_request (u ''http://a'') (u ''term'')) no_io
       = Some (Inr (None,
           \<lparr>io_gets = 3, io_sleeps = [1, 1, 1],
            io_log = [(ERROR, failed_message (u ''http://a''))]\<rparr>))"
  using request_page_exhausts_retries [of sample_config dead_net "new_request (u ''http://a'') (u ''term'')" no_io]
  by (simp add: sample_config_def dead_net_def attempt_fails_def no_io_def new_request_def
      numeral_3_eq_3)

text \<open>
  With a negative counter and no attempt that succeeds the loop does not end:
  decrementing never reaches zero.
\<close>

lemma request_page_loop_returns_nonneg:
  assumes "request_page_loop net cfg url attempts st = Some y"
  shows "0 \<le> request_seconds_before_retry cfg
         \<and> (\<forall>n. attempt_fails (http_get net url n)) \<longrightarrow> 0 \<le> attempts"
proof (rule request_page_loop.raw_induct [OF _ assms], intro impI, elim conjE)
  fix loop net cfg url and attempts :: int and st y
  assume IH: "\<And>net cfg url attempts st y. loop net cfg url attempts st = Some y \<Longrightarrow>
      0 \<le> request_seconds_before_retry cfg
      \<and> (\<forall>n. attempt_fails (http_get net url n)) \<longrightarrow> 0 \<le> attempts"
    and body: "(if attempts \<noteq> 0
      then let response = case http_get net url (io_gets st) of Raises \<Rightarrow> None
                          | Returns r \<Rightarrow> Some r;
               st1 = st\<lparr>io_gets := io_gets st + 1\<rparr>
           in if case response of None \<Rightarrow> False
                 | Some r \<Rightarrow> resp_ok r \<and> resp_text r \<noteq> None
              then Some (Inr (response, st1))
              else if request_seconds_before_retry cfg < 0 then Some (Inl SleepError)
                   else loop net cfg url (attempts - 1)
                         (st1\<lparr>io_sleeps := io_sleeps st1 @ [request_seconds_before_retry cfg]\<rparr>)
      else Some (Inr (None, st\<lparr>io_log := io_log st @ [(ERROR, failed_message url)]\<rparr>))) = Some y"
    and delay: "0 \<le> request_seconds_before_retry cfg"
    and fails: "\<forall>n. attempt_fails (http_get net url n)"
  show "0 \<le> attempts"
  proof (cases "attempts = 0")
    case True
    then show ?thesis by simp
  next
    case False
    have "attempt_fails (http_get net url (io_gets st))" using fails by blast
    with False delay body
    have "loop net cfg url (attempts - 1)
            (st\<lparr>io_gets := io_gets st + 1,
                io_sleeps := io_sleeps st @ [request_seconds_before_retry cfg]\<rparr>) = Some y"
      by (auto simp: attempt_fails_def Let_def split: outcome.splits)
    from IH [OF this] delay fails have "0 \<le> attempts - 1" by blast
    then show ?thesis by simp
  qed
qed

lemma request_page_loop_negative_never_returns:
  assumes "attempts < 0" and "0 \<le> request_seconds_before_retry cfg"
    and "\<forall>n. attempt_fails (http_get net url n)"
  shows "request_page_loop net cfg url attempts st = None"
proof (cases "request_page_loop net cfg url attempts st")
  case None
  then show ?thesis .
next
  case (Some y)
  from request_page_loop_returns_nonneg [OF Some] assms show ?thesis by simp
qed

section \<open>What a direct fetch leaves in the object\<close>

lemma page_request_init_InrE:
  assumes "page_request_init e net cfg url trm True st = Some (Inr (self', st'))"
    and "self_response self' \<noteq> None"
  obtains r st1 where
    "request_page net cfg (new_request url trm) st = Some (Inr (Some r, st1))"
    "parse_response e ((new_request url trm)\<lparr>self_response := Some (HttpResponse r)\<rparr>) st1
       = Inr (self', st')"
proof -
  from assms obtain r st1 where
    req: "request_page net cfg (new_request url trm) st = Some (Inr (Some r, st1))"
    unfolding page_request_init_def
    by (auto split: option.splits sum.splits prod.splits if_splits simp: Let_def)
  then have "resp_ok r"
    using request_page_loop_returns_usable unfolding request_page_def by blast
  with assms req that show ?thesis
    unfolding page_request_init_def by (simp add: Let_def)
qed

lemma raw_text_io:
  "map_sum id fst (raw_text e url html st) = map_sum id fst (raw_text e url html st')"
  by (simp add: raw_text_def Let_def split: outcome.splits)

lemma parse_response_response:
  assumes "parse_response e self st = Inr (self', st')"
  shows "self_response self' = self_response self"
  using assms
  by (elim parse_response_InrE)
     (simp add: get_meta_fields get_html_features_fields extract_sentences_other_fields)

lemmas model_defs =
  page_request_init_def request_page_def parse_response_def raw_text_def
  extract_sentences_def extract_sentences_loop_def paragraph_step_def sentence_step_def
  get_html_features_def get_meta_def author_candidates_def reasonable_author_def
  structured_def constructed_def new_request_def split_def strip_def startswith_def
  literal_safe_def special_chars_def prop_names_def dict_literal_def
  m_re_def title_re_def highlight_re_def quote_re_def highlight_tags_def
  OPENING_QUOTES_def CLOSING_QUOTES_def same_def lower_def match_at_def group_text_def
  u_def

lemmas sample_defs = sample_env_def sample_net_def sample_config_def no_io_def dead_net_def

text \<open>
  Claim C1, as the code has it. After a successful direct fetch, \<^verbatim>\<open>doc\<close> is the
  space-joined text of all qualified candidate sentences of the converted page, in the
  order met, retained or not. The originals of the retained sentences are a subsequence
  of these; \<^verbatim>\<open>doc\<close> is the join of the retained originals when every qualified sentence
  was retained.
\<close>

theorem doc_joins_all_qualified_sentences:
  assumes "page_request_init e net cfg url trm True st = Some (Inr (self, st'))"
    and "self_response self = Some (HttpResponse r)"
  shows "\<exists>html raw.
      resp_text r = Some html
    \<and> map_sum id fst (raw_text e url html st) = Inr raw
    \<and> st_doc (structured e cfg self) = JStr (join (u '' '') (qualified_sentences e trm raw))
    \<and> subseq (map sen_s (st_sentences (structured e cfg self))) (qualified_sentences e trm raw)
    \<and> (length (st_sentences (structured e cfg self)) = length (qualified_sentences e trm raw)
         \<longrightarrow> st_doc (structured e cfg self)
              = JStr (join (u '' '') (map sen_s (st_sentences (structured e cfg self)))))"
proof (rule page_request_init_InrE [OF assms(1)])
  show "self_response self \<noteq> None" using assms(2) by simp
next
  fix r1 st1
  let ?new = "new_request url trm"
  let ?self1 = "?new\<lparr>self_response := Some (HttpResponse r1)\<rparr>"
  assume parse: "parse_response e ?self1 st1 = Inr (self, st')"
  have r1: "r1 = r"
    using parse_response_response [OF parse] assms(2) by simp
  show ?thesis
  proof (rule parse_response_InrE [OF parse])
    fix r2 html raw self3
    let ?self0 = "?self1\<lparr>self_html := JStr html\<rparr>"
    assume r2: "self_response ?self1 = Some (HttpResponse r2)"
      and html: "resp_text r2 = Some html"
      and raw: "raw_text e (self_url ?self1) html st1 = Inr (raw, st')"
      and feat: "get_html_features e html
         ((snd (extract_sentences e raw ?self0))
            \<lparr>self_text := JStr (fst (extract_sentences e raw ?self0))\<rparr>) = Inr self3"
      and self: "self = get_meta e html self3"
    have r2r: "r2 = r" using r2 r1 by simp
    have url: "self_url ?self1 = url" by (simp add: new_request_def)
    have trm: "self_term ?self0 = trm" and nil: "self_sentences ?self0 = []"
      by (simp_all add: new_request_def)
    have doc: "self_text self = JStr (join (u '' '') (qualified_sentences e trm raw))"
      using get_html_features_fields(3) [OF feat] extract_sentences_doc [of e raw ?self0] trm
      by (simp add: self get_meta_fields)
    have sens: "self_sentences self = self_sentences (snd (extract_sentences e raw ?self0))"
      using get_html_features_fields(1) [OF feat] by (simp add: self get_meta_fields)
    have "\<exists>new. self_sentences (snd (extract_sentences e raw ?self0)) = map (entry e trm) new
        \<and> subseq new (qualified_sentences e trm raw)"
      by (rule extract_sentences_added [of e raw ?self0]) (auto simp: trm nil)
    then obtain new where new:
      "self_sentences (snd (extract_sentences e raw ?self0)) = map (entry e trm) new"
      "subseq new (qualified_sentences e trm raw)"
      by blast
    have orig: "map sen_s (self_sentences self) = new"
      by (simp add: sens new(1) entry_def comp_def)
    have sub: "subseq (map sen_s (self_sentences self)) (qualified_sentences e trm raw)"
      using new(2) orig by simp
    have same: "map sen_s (self_sentences self) = qualified_sentences e trm raw"
      if "length (self_sentences self) = length (qualified_sentences e trm raw)"
      using subseq_same_length [OF sub] that by simp
    have "map_sum id fst (raw_text e url html st) = Inr raw"
      using raw_text_io [of e url html st st1] raw url by simp
    with html r2r doc sub same show ?thesis
      by (intro exI [of _ html] exI [of _ raw]) (simp add: structured_def)
  qed
qed

theorem doc_joins_all_qualified_sentences_witness:
  "\<exists>self st'.
      page_request_init sample_env (sample_net (u ''a\<newline>\<newline>a'')) sample_config
        (u ''http://a'') (u ''a'') True no_io = Some (Inr (self, st'))
    \<and> self_response self
        = Some (HttpResponse \<lparr>resp_ok = True, resp_text = Some (u ''a\<newline>\<newline>a'')\<rparr>)
    \<and> st_doc (structured sample_env sample_config self)
        = JStr (join (u '' '')
            (qualified_sentences sample_env (u ''a'') (u ''a\<newline>\<newline>a'')))"
proof -
  obtain self st' where
    init: "page_request_init sample_env (sample_net (u ''a\<newline>\<newline>a'')) sample_config
        (u ''http://a'') (u ''a'') True no_io = Some (Inr (self, st'))"
    and resp: "self_response self
        = Some (HttpResponse \<lparr>resp_ok = True, resp_text = Some (u ''a\<newline>\<newline>a'')\<rparr>)"
    by (simp add: model_defs sample_defs request_page_loop.simps Let_def)
  have "raw_text sample_env url html st = Inr (html, st)" for url html st
    by (simp add: raw_text_def sample_env_def)
  with doc_joins_all_qualified_sentences [OF init resp] init resp show ?thesis
    by auto
qed

theorem doc_not_joined_retained_counterexample:
  "(case constructed (page_request_init sample_env (sample_net (u ''a\<newline>\<newline>a''))
            sample_config (u ''http://a'') (u ''a'') True no_io) of
      None \<Rightarrow> False
    | Some self \<Rightarrow>
        st_doc (structured sample_env sample_config self) = JStr (u ''a a'')
        \<and> map sen_s (st_sentences (structured sample_env sample_config self)) = [u ''a'']
        \<and> join (u '' '') (map sen_s (st_sentences (structured sample_env sample_config self)))
            = u ''a'')"
  by (simp add: model_defs sample_defs request_page_loop.simps Let_def)

section \<open>Retained sentences\<close>

lemma parse_response_distinct:
  assumes "parse_response e self st = Inr (self', st')"
    and "distinct (map sen_s_clean (self_sentences self))"
  shows "distinct (map sen_s_clean (self_sentences self'))"
proof (rule parse_response_InrE [OF assms(1)])
  fix r html raw self3
  let ?self0 = "self\<lparr>self_html := JStr html\<rparr>"
  assume feat: "get_html_features e html
         ((snd (extract_sentences e raw ?self0))
            \<lparr>self_text := JStr (fst (extract_sentences e raw ?self0))\<rparr>) = Inr self3"
    and self: "self' = get_meta e html self3"
  have "self_sentences self' = self_sentences (snd (extract_sentences e raw ?self0))"
    using get_html_features_fields(1) [OF feat] by (simp add: self get_meta_fields)
  then show ?thesis
    using extract_sentences_distinct [of ?self0 e raw] assms(2) by simp
qed

lemma diffbot_parse_response_InrE:
  assumes "diffbot_parse_response e self = Inr self'"
  obtains body objects obj txtv h auth ttl where
    "self_response self = Some (ApiResponse body)"
    "subscript body (u ''objects'') = Inr objects"
    "first_item objects = Inr obj"
    "dict_get obj (u ''text'') = Inr txtv"
    "dict_get obj (u ''html'') = Inr (JStr h)"
    "dict_get obj (u ''author'') = Inr auth"
    "dict_get obj (u ''title'') = Inr ttl"
    "get_html_features e h
       (snd (extract_sentences e h
          (self\<lparr>self_text := txtv, self_html := JStr h,
                self_author := auth, self_title := ttl\<rparr>))) = Inr self'"
  using assms unfolding diffbot_parse_response_def
  by (auto split: option.splits response_value.splits sum.splits json.splits simp: Let_def)

lemma diffbot_parse_response_distinct:
  assumes "diffbot_parse_response e self = Inr self'"
    and "distinct (map sen_s_clean (self_sentences self))"
  shows "distinct (map sen_s_clean (self_sentences self'))"
proof (rule diffbot_parse_response_InrE [OF assms(1)])
  fix txtv h auth ttl
  let ?self1 = "self\<lparr>self_text := txtv, self_html := JStr h,
                     self_author := auth, self_title := ttl\<rparr>"
  assume feat: "get_html_features e h (snd (extract_sentences e h ?self1)) = Inr self'"
  show ?thesis
    using get_html_features_fields(1) [OF feat] extract_sentences_distinct [of ?self1 e h]
      assms(2) by simp
qed

lemma page_request_init_distinct:
  assumes "page_request_init e net cfg url trm run st = Some (Inr (self', st'))"
  shows "distinct (map sen_s_clean (self_sentences self'))"
proof -
  let ?new = "new_request url trm"
  have new: "distinct (map sen_s_clean (self_sentences (?new\<lparr>self_response := resp\<rparr>)))" for resp
    by (simp add: new_request_def)
  have "self' = ?new \<or> (\<exists>resp. self' = ?new\<lparr>self_response := resp\<rparr>)
      \<or> (\<exists>resp st1. parse_response e (?new\<lparr>self_response := resp\<rparr>) st1 = Inr (self', st'))"
    using assms unfolding page_request_init_def
    by (auto split: option.splits sum.splits prod.splits if_splits simp: Let_def)
  then show ?thesis
    using new parse_response_distinct by (auto simp: new_request_def)
qed

lemma diffbot_request_init_distinct:
  assumes "diffbot_request_init e net cfg url trm run st = Inr (self', st')"
  shows "distinct (map sen_s_clean (self_sentences self'))"
proof -
  let ?new = "new_request url trm"
  have new: "distinct (map sen_s_clean (self_sentences (?new\<lparr>self_response := resp\<rparr>)))" for resp
    by (simp add: new_request_def)
  have "self' = ?new \<or> (\<exists>resp. self' = ?new\<lparr>self_response := resp\<rparr>)
      \<or> (\<exists>resp. diffbot_parse_response e (?new\<lparr>self_response := resp\<rparr>) = Inr self')"
    using assms unfolding diffbot_request_init_def
    by (auto split: option.splits sum.splits prod.splits if_splits simp: Let_def)
  then show ?thesis
    using new diffbot_parse_response_distinct by (auto simp: new_request_def)
qed

text \<open>
  Claim C6. No two retained sentences share a normalized form: if that holds of an
  object, it holds after any number of paragraphs and then any number of sentences of
  the two loops, and after \<open>extract_sentences\<close>; it holds of every object that either
  constructor returns. A step appends a sentence or adds variants only if the
  normalized form of its sentence is not yet among the retained ones.
\<close>

theorem retained_sentences_distinct_normalized:
  assumes "distinct (map sen_s_clean (self_sentences self))"
  shows "distinct (map sen_s_clean (self_sentences
            (snd (foldl (sentence_step e) (foldl (paragraph_step e) (doc, self) ps) sens))))
    \<and> distinct (map sen_s_clean (self_sentences (snd (extract_sentences e page_text self))))
    \<and> (self_sentences (snd (sentence_step e (doc, self) sen)) \<noteq> self_sentences self
         \<or> self_variants (snd (sentence_step e (doc, self) sen)) \<noteq> self_variants self
       \<longrightarrow> fst (clean_sentence e sen (self_term self))
             \<notin> set (map sen_s_clean (self_sentences self)))
    \<and> (page_request_init e net cfg url trm run st = Some (Inr (self', st'))
       \<longrightarrow> distinct (map sen_s_clean (self_sentences self')))
    \<and> (diffbot_request_init e net cfg url trm run st = Inr (self', st')
       \<longrightarrow> distinct (map sen_s_clean (self_sentences self')))"
proof -
  have "distinct (map sen_s_clean (self_sentences (snd (foldl (paragraph_step e) (doc, self) ps))))"
    using paragraphs_fold_distinct [of "(doc, self)" e ps] assms by simp
  then have a: "distinct (map sen_s_clean (self_sentences
            (snd (foldl (sentence_step e) (foldl (paragraph_step e) (doc, self) ps) sens))))"
    by (rule sentences_fold_distinct)
  have b: "fst (clean_sentence e sen (self_term self))
             \<notin> set (map sen_s_clean (self_sentences self))"
    if "self_sentences (snd (sentence_step e (doc, self) sen)) \<noteq> self_sentences self
         \<or> self_variants (snd (sentence_step e (doc, self) sen)) \<noteq> self_variants self"
  proof -
    from that have "retains e self sen"
      by (auto simp: sentence_step_snd split: if_splits)
    then show ?thesis by (simp add: retains_def)
  qed
  have c: "distinct (map sen_s_clean (self_sentences (snd (extract_sentences e page_text self))))"
    by (rule extract_sentences_distinct [OF assms])
  have d: "distinct (map sen_s_clean (self_sentences self'))"
    if "page_request_init e net cfg url trm run st = Some (Inr (self', st'))"
    using that by (rule page_request_init_distinct)
  have d': "distinct (map sen_s_clean (self_sentences self'))"
    if "diffbot_request_init e net cfg url trm run st = Inr (self', st')"
    using that by (rule diffbot_request_init_distinct)
  from a b c d d' show ?thesis by blast
qed

theorem retained_sentences_distinct_normalized_witness:
  "distinct (map sen_s_clean (self_sentences (new_request (u ''http://a'') (u ''a''))))
   \<and> distinct (map sen_s_clean (self_sentences
        (snd (extract_sentences sample_env (u ''a\<newline>\<newline>a'')
               (new_request (u ''http://a'') (u ''a''))))))"
  using retained_sentences_distinct_normalized
    [of "new_request (u ''http://a'') (u ''a'')" sample_env _ _ _ "u ''a\<newline>\<newline>a''"]
  by (simp add: new_request_def)

text \<open>
  Claim C10. A qualified sentence for which the cleaner finds no variant goes into
  \<^verbatim>\<open>doc\<close> and leaves the object as it was: no entry, no variant. So \<^verbatim>\<open>doc\<close> joins
  every qualified sentence, and such a sentence is not among the entries that a run of
  \<open>extract_sentences\<close> adds.
\<close>

theorem sentence_without_variants_only_in_doc:
  assumes "qualify_sentence e sen"
    and "snd (clean_sentence e sen (self_term self)) = {}"
  shows "sentence_step e (doc, self) sen = (doc @ [sen], self)
    \<and> fst (extract_sentences e page_text self)
        = join (u '' '') (qualified_sentences e (self_term self) page_text)
    \<and> sen \<notin> sen_s ` set (drop (length (self_sentences self))
                                (self_sentences (snd (extract_sentences e page_text self))))"
proof -
  have step: "sentence_step e (doc, self) sen = (doc @ [sen], self)"
    using assms sentence_step_snd [of e doc self sen] sentence_step_doc [of e "(doc, self)" sen]
    by (simp add: prod_eq_iff retains_def)
  have "\<exists>new. self_sentences (snd (extract_sentences e page_text self))
            = self_sentences self @ map (entry e (self_term self)) new
        \<and> list_all (\<lambda>sen. snd (clean_sentence e sen (self_term self)) \<noteq> {}) new"
    by (rule extract_sentences_added [of e page_text self]) auto
  then obtain new where new:
    "self_sentences (snd (extract_sentences e page_text self))
       = self_sentences self @ map (entry e (self_term self)) new"
    "list_all (\<lambda>sen. snd (clean_sentence e sen (self_term self)) \<noteq> {}) new"
    by blast
  have "sen \<notin> set new"
    using new(2) assms(2) by (auto simp: list_all_iff)
  then have "sen \<notin> sen_s ` set (drop (length (self_sentences self))
                                (self_sentences (snd (extract_sentences e page_text self))))"
    by (simp add: new(1) entry_def image_image)
  with step show ?thesis by (simp add: extract_sentences_doc)
qed

theorem sentence_without_variants_only_in_doc_witness:
  "qualify_sentence sample_env (u ''b'')
   \<and> snd (clean_sentence sample_env (u ''b'')
            (self_term (new_request (u ''http://a'') (u ''a'')))) = {}
   \<and> sentence_step sample_env ([], new_request (u ''http://a'') (u ''a'')) (u ''b'')
       = ([u ''b''], new_request (u ''http://a'') (u ''a''))"
  using sentence_without_variants_only_in_doc
    [of sample_env "u ''b''" "new_request (u ''http://a'') (u ''a'')" "[]"]
  by (simp add: sample_env_def new_request_def u_def)

section \<open>The article API\<close>

lemma dict_get_field: "dict_get (JDict kvs) key = Inr (field kvs key)"
  by (simp add: field_def split: option.splits)

lemma get_html_features_eq:
  assumes "self_term self = [] \<or> literal_safe (squashed e (self_term self) None)"
  shows "get_html_features e html self
    = Inr (if self_term self = [] then self
           else self\<lparr>self_features := Some (features_of e (self_term self) html)\<rparr>)"
  using assms by (auto simp: get_html_features_def features_of_def Let_def)

lemma diffbot_request_page_failed:
  assumes "api_get net (credentials_diffbot cfg) (self_url self) = Raises
     \<or> (\<exists>kvs. api_get net (credentials_diffbot cfg) (self_url self) = Returns (JDict kvs)
           \<and> (map_of kvs (u ''objects'') = None
               \<or> map_of kvs (u ''objects'') = Some (JList [])))"
  shows "diffbot_request_page net cfg self st
    = (None, st\<lparr>io_gets := io_gets st + 1,
                 io_log := io_log st @ [(ERROR, failed_message (self_url self))]\<rparr>)"
  using assms by (auto simp: diffbot_request_page_def Let_def)

lemma diffbot_request_page_validated:
  assumes "api_get net (credentials_diffbot cfg) (self_url self) = Returns (JDict kvs)"
    and "map_of kvs (u ''objects'') = Some (JList (obj # others))"
  shows "diffbot_request_page net cfg self st
    = (Some (JDict kvs), st\<lparr>io_gets := io_gets st + 1\<rparr>)"
  using assms by (simp add: diffbot_request_page_def Let_def)

text \<open>
  Claim C3. When the call to the article API raises (the transfer or the decoding
  fails), or the decoded body is a dict without the key \<^verbatim>\<open>objects\<close> or with an empty
  list under it, the constructor raises nothing, returns an object in which nothing is
  extracted, and has logged one error. When the body has a list under \<^verbatim>\<open>objects\<close> whose
  first element is a dict with a string under \<^verbatim>\<open>html\<close>, the object has as its text,
  html, author and title what the first element has under these keys (\<^verbatim>\<open>None\<close> for a
  missing key), and its sentences, variants and features are what \<open>extract_sentences\<close>
  and \<open>get_html_features\<close> compute from that html string: the text is not read for
  them. (The term is empty or its squashed form is a literal in the patterns.)
\<close>

theorem article_api_failure_and_adoption:
  "(api_get net (credentials_diffbot cfg) url = Raises
     \<or> (\<exists>kvs. api_get net (credentials_diffbot cfg) url = Returns (JDict kvs)
           \<and> (map_of kvs (u ''objects'') = None
               \<or> map_of kvs (u ''objects'') = Some (JList [])))
    \<longrightarrow> diffbot_request_init e net cfg url trm True st
        = Inr (new_request url trm,
               st\<lparr>io_gets := io_gets st + 1,
                  io_log := io_log st @ [(ERROR, failed_message url)]\<rparr>))
  \<and> (api_get net (credentials_diffbot cfg) url = Returns (JDict kvs)
      \<and> map_of kvs (u ''objects'') = Some (JList (JDict obj # others))
      \<and> map_of obj (u ''html'') = Some (JStr h)
      \<and> (trm = [] \<or> literal_safe (squashed e trm None))
    \<longrightarrow> (\<exists>self adopted.
          diffbot_request_init e net cfg url trm True st
            = Inr (self, st\<lparr>io_gets := io_gets st + 1\<rparr>)
        \<and> adopted = (new_request url trm)
            \<lparr>self_response := Some (ApiResponse (JDict kvs)),
             self_text := field obj (u ''text''), self_html := JStr h,
             self_author := field obj (u ''author''), self_title := field obj (u ''title'')\<rparr>
        \<and> self = (if trm = [] then snd (extract_sentences e h adopted)
                   else (snd (extract_sentences e h adopted))
                          \<lparr>self_features := Some (features_of e trm h)\<rparr>)
        \<and> self_text self = field obj (u ''text'')
        \<and> self_html self = JStr h
        \<and> self_author self = field obj (u ''author'')
        \<and> self_title self = field obj (u ''title'')
        \<and> st_doc (structured e cfg self) = field obj (u ''text'')
        \<and> st_author (structured e cfg self) = field obj (u ''author'')
        \<and> st_title (structured e cfg self) = field obj (u ''title'')
        \<and> st_html (structured e cfg self) = (if save_html cfg then Some (JStr h) else None)))"
proof (intro conjI impI)
  assume "api_get net (credentials_diffbot cfg) url = Raises
     \<or> (\<exists>kvs. api_get net (credentials_diffbot cfg) url = Returns (JDict kvs)
           \<and> (map_of kvs (u ''objects'') = None
               \<or> map_of kvs (u ''objects'') = Some (JList [])))"
  then have "diffbot_request_page net cfg (new_request url trm) st
    = (None, st\<lparr>io_gets := io_gets st + 1,
                 io_log := io_log st @ [(ERROR, failed_message url)]\<rparr>)"
    using diffbot_request_page_failed [of net cfg "new_request url trm" st]
    by (simp add: new_request_def)
  then show "diffbot_request_init e net cfg url trm True st
        = Inr (new_request url trm,
               st\<lparr>io_gets := io_gets st + 1,
                  io_log := io_log st @ [(ERROR, failed_message url)]\<rparr>)"
    by (simp add: diffbot_request_init_def new_request_def)
next
  assume asm: "api_get net (credentials_diffbot cfg) url = Returns (JDict kvs)
      \<and> map_of kvs (u ''objects'') = Some (JList (JDict obj # others))
      \<and> map_of obj (u ''html'') = Some (JStr h)
      \<and> (trm = [] \<or> literal_safe (squashed e trm None))"
  let ?new = "new_request url trm"
  let ?self1 = "?new\<lparr>self_response := Some (ApiResponse (JDict kvs))\<rparr>"
  let ?adopted = "?new
            \<lparr>self_response := Some (ApiResponse (JDict kvs)),
             self_text := field obj (u ''text''), self_html := JStr h,
             self_author := field obj (u ''author''), self_title := field obj (u ''title'')\<rparr>"
  let ?ex = "snd (extract_sentences e h ?adopted)"
  let ?self = "if trm = [] then ?ex else ?ex\<lparr>self_features := Some (features_of e trm h)\<rparr>"
  have page: "diffbot_request_page net cfg ?new st
    = (Some (JDict kvs), st\<lparr>io_gets := io_gets st + 1\<rparr>)"
    using asm diffbot_request_page_validated [of net cfg ?new kvs "JDict obj" others st]
    by (simp add: new_request_def)
  have nonempty: "kvs \<noteq> []" using asm by auto
  have trm: "self_term ?ex = trm"
    by (simp add: extract_sentences_other_fields new_request_def)
  have feat: "get_html_features e h ?ex = Inr ?self"
    using get_html_features_eq [of ?ex e h] asm trm by auto
  have html: "field obj (u ''html'') = JStr h"
    using asm by (simp add: field_def)
  have parse: "diffbot_parse_response e ?self1 = Inr ?self"
    using asm feat
    by (simp add: diffbot_parse_response_def dict_get_field html Let_def del: dict_get.simps)
  have init: "diffbot_request_init e net cfg url trm True st
            = Inr (?self, st\<lparr>io_gets := io_gets st + 1\<rparr>)"
    using page parse nonempty by (simp add: diffbot_request_init_def Let_def)
  have fields: "self_text ?self = field obj (u ''text'')" "self_html ?self = JStr h"
     "self_author ?self = field obj (u ''author'')" "self_title ?self = field obj (u ''title'')"
    by (simp_all add: extract_sentences_other_fields)
  show "\<exists>self adopted.
          diffbot_request_init e net cfg url trm True st
            = Inr (self, st\<lparr>io_gets := io_gets st + 1\<rparr>)
        \<and> adopted = (new_request url trm)
            \<lparr>self_response := Some (ApiResponse (JDict kvs)),
             self_text := field obj (u ''text''), self_html := JStr h,
             self_author := field obj (u ''author''), self_title := field obj (u ''title'')\<rparr>
        \<and> self = (if trm = [] then snd (extract_sentences e h adopted)
                   else (snd (extract_sentences e h adopted))
                          \<lparr>self_features := Some (features_of e trm h)\<rparr>)
        \<and> self_text self = field obj (u ''text'')
        \<and> self_html self = JStr h
        \<and> self_author self = field obj (u ''author'')
        \<and> self_title self = field obj (u ''title'')
        \<and> st_doc (structured e cfg self) = field obj (u ''text'')
        \<and> st_author (structured e cfg self) = field obj (u ''author'')
        \<and> st_title (structured e cfg self) = field obj (u ''title'')
        \<and> st_html (structured e cfg self) = (if save_html cfg then Some (JStr h) else None)"
    using init fields
    by (intro exI [of _ ?self] exI [of _ ?adopted]) (simp add: structured_def)
qed

theorem article_api_failure_and_adoption_witness:
  "api_get dead_net (credentials_diffbot sample_config) (u ''http://a'') = Raises
   \<and> diffbot_request_init sample_env dead_net sample_config (u ''http://a'') (u ''a'') True no_io
       = Inr (new_request (u ''http://a'') (u ''a''),
              \<lparr>io_gets = 1, io_sleeps = [],
               io_log = [(ERROR, failed_message (u ''http://a''))]\<rparr>)
   \<and> (case diffbot_request_init sample_env (sample_net (u ''a\<newline>\<newline><b>a</b>'')) sample_config
              (u ''http://a'') (u ''a'') True no_io of
        Inl err \<Rightarrow> False
      | Inr (self, st) \<Rightarrow>
          self_text self = JStr (u ''txt'') \<and> self_html self = JStr (u ''a\<newline>\<newline><b>a</b>'')
          \<and> self_author self = JStr (u ''au'') \<and> self_title self = JStr (u ''ti'')
          \<and> map sen_s (self_sentences self) = [u ''a'']
          \<and> self_features self = Some \<lparr>highlighted = True, quotes = False\<rparr>
          \<and> io_log st = [])"
  using article_api_failure_and_adoption [of dead_net sample_config "u ''http://a''" sample_env "u ''a''" no_io]
  by (simp add: model_defs lower_def sample_defs diffbot_request_init_def diffbot_request_page_def
      diffbot_parse_response_def Let_def)

section \<open>The fallback conversion\<close>

lemma prune_descendants: "d \<in> set (descendants (prune n)) \<Longrightarrow> \<not> extracted d"
proof (induction n arbitrary: d)
  case (NavigableString w)
  then show ?case by simp
next
  case (Tag name classes ident contents)
  from Tag.prems obtain el where el: "el \<in> set contents" "\<not> extracted el"
    and d: "d = prune el \<or> d \<in> set (descendants (prune el))"
    by auto
  show ?case
  proof (cases "d = prune el")
    case True
    then show ?thesis using el(2) by (cases el) auto
  next
    case False
    then show ?thesis using d Tag.IH [OF el(1)] by blast
  qed
qed

lemma star_newlines:
  "rx_match False [R (Star (Lit 10))] s g = Some (dropWhile (\<lambda>ch. ch = 10) s, g)"
  by (induction s) simp_all

lemma plus_newlines:
  "rx_match False [R (Plus (Lit 10))] s g
     = (case s of
          [] \<Rightarrow> None
        | ch # rest \<Rightarrow> if ch = 10 then rx_match False [R (Star (Lit 10))] rest g else None)"
  by (cases s) simp_all

lemma match_at_newlines:
  "match_at False (Plus (Lit 10)) s
     = (case s of
          [] \<Rightarrow> None
        | ch # rest \<Rightarrow>
            if ch = 10 then Some (dropWhile (\<lambda>ch. ch = 10) rest, \<lambda>n. None) else None)"
  by (simp add: match_at_def plus_newlines star_newlines del: rx_match.simps split: list.splits)

lemma re_sub_newlines_Nil: "re_sub False (Plus (Lit 10)) [10, 10] [] = []"
  by (simp add: match_at_newlines)

lemma re_sub_newlines_Cons:
  "re_sub False (Plus (Lit 10)) [10, 10] (ch # s)
     = (if ch = 10
        then [10, 10] @ re_sub False (Plus (Lit 10)) [10, 10] (dropWhile (\<lambda>ch. ch = 10) s)
        else ch # re_sub False (Plus (Lit 10)) [10, 10] s)"
  using length_dropWhile_le [of "\<lambda>ch. ch = 10" s]
  by (simp add: match_at_newlines less_Suc_eq_le)

lemma re_sub_newlines_none:
  "10 \<notin> set a \<Longrightarrow> re_sub False (Plus (Lit 10)) [10, 10] a = a"
  by (induction a) (simp_all add: re_sub_newlines_Nil re_sub_newlines_Cons del: re_sub.simps)

lemma re_sub_newlines_run:
  assumes "10 \<notin> set a" and "b = [] \<or> hd b \<noteq> 10"
  shows "re_sub False (Plus (Lit 10)) [10, 10] (a @ replicate (Suc n) 10 @ b)
           = a @ [10, 10] @ re_sub False (Plus (Lit 10)) [10, 10] b"
  using assms(1)
proof (induction a)
  case Nil
  have "dropWhile (\<lambda>ch. ch = 10) (replicate n 10 @ b) = b"
    using assms(2) by (cases b) (simp_all add: dropWhile_append)
  then show ?case by (simp add: re_sub_newlines_Cons del: re_sub.simps)
next
  case (Cons ch a)
  then show ?case by (simp add: re_sub_newlines_Cons del: re_sub.simps)
qed

text \<open>
  Claim C5, as the code has it. When \<^verbatim>\<open>html2text\<close> raises and \<^verbatim>\<open>BeautifulSoup\<close> returns
  a tree, \<^verbatim>\<open>raw\<close> is the text of the pruned tree after the substitution, one
  informational line is logged and no error. Below the root of the pruned tree there
  is no \<^verbatim>\<open>head\<close> or \<^verbatim>\<open>script\<close> tag and no tag with the class or the id \<^verbatim>\<open>comments\<close>.
  The substitution keeps a text without newlines, and turns every run of one or more
  newlines into exactly two.
\<close>

theorem fallback_text_doubles_newline_runs:
  assumes "html_parser_handle e html = Raises"
    and "beautiful_soup e html = Returns soup"
  shows "raw_text e url html st
      = Inr (re_sub False (Plus (Lit 10)) [10, 10] (get_text (prune soup)),
             st\<lparr>io_log := io_log st @ [(INFO, fallback_message url)]\<rparr>)
    \<and> (\<forall>d \<in> set (descendants (prune soup)). \<not> extracted d)
    \<and> (10 \<notin> set a \<longrightarrow> re_sub False (Plus (Lit 10)) [10, 10] a = a)
    \<and> (10 \<notin> set a \<and> (b = [] \<or> hd b \<noteq> 10)
        \<longrightarrow> re_sub False (Plus (Lit 10)) [10, 10] (a @ replicate (Suc n) 10 @ b)
             = a @ [10, 10] @ re_sub False (Plus (Lit 10)) [10, 10] b)"
  using assms prune_descendants re_sub_newlines_none re_sub_newlines_run
  by (simp add: raw_text_def)

theorem fallback_text_doubles_newline_runs_witness:
  "html_parser_handle fallback_env (u ''a\<newline>\<newline>\<newline>b'') = Raises
   \<and> beautiful_soup fallback_env (u ''a\<newline>\<newline>\<newline>b'') = Returns (sample_soup (u ''a\<newline>\<newline>\<newline>b''))
   \<and> raw_text fallback_env (u ''http://a'') (u ''a\<newline>\<newline>\<newline>b'') no_io
       = Inr (u ''a\<newline>\<newline>b'', \<lparr>io_gets = 0, io_sleeps = [],
               io_log = [(INFO, fallback_message (u ''http://a''))]\<rparr>)"
  using fallback_text_doubles_newline_runs [of fallback_env "u ''a\<newline>\<newline>\<newline>b''" "sample_soup (u ''a\<newline>\<newline>\<newline>b'')"
      "u ''http://a''" no_io "[]" "[]" 0]
  by (simp add: fallback_env_def sample_env_def sample_soup_def no_io_def u_def
      re_sub_newlines_Cons re_sub_newlines_Nil del: re_sub.simps)

theorem single_newline_doubled_counterexample:
  "get_text (prune (sample_soup (u ''a\<newline>b''))) = u ''a\<newline>b''
   \<and> raw_text fallback_env (u ''http://a'') (u ''a\<newline>b'') no_io
       = Inr (u ''a\<newline>\<newline>b'', \<lparr>io_gets = 0, io_sleeps = [],
               io_log = [(INFO, fallback_message (u ''http://a''))]\<rparr>)"
  by (simp add: raw_text_def fallback_env_def sample_env_def sample_soup_def no_io_def u_def
      re_sub_newlines_Cons re_sub_newlines_Nil del: re_sub.simps)

section \<open>The matcher and what can match\<close>





section \<open>Matching, piece by piece\<close>

inductive_cases can_match_NilE: "can_match ic [] s g s' g'"
inductive_cases can_match_StarE: "can_match ic (R (Star c) # k) s g s' g'"

lemma can_match_Nil_iff: "can_match ic [] s g s' g' \<longleftrightarrow> s' = s \<and> g' = g"
  by (auto elim: can_match_NilE intro: Done)











section \<open>Searching\<close>



section \<open>Ignoring case\<close>




section \<open>The shape that the feature patterns match\<close>










section \<open>Features\<close>







section \<open>The author\<close>

lemmas regex_defs =
  m_re_def title_re_def same_def match_at_def group_text_def strip_def startswith_def
  lower_def u_def

lemma prop_names_eq:
  "prop_names = [(u ''name'', u ''author''), (u ''property'', u ''article:author'')]"
  by (simp add: prop_names_def dict_literal_def u_def)

lemma find_filter:
  "List.find P xs = (case filter P xs of [] \<Rightarrow> None | x # _ \<Rightarrow> Some x)"
  by (induction xs) simp_all

lemma get_meta_author:
  "self_author (get_meta e page_html self)
     = (case List.find reasonable_author (author_candidates e page_html) of
          None \<Rightarrow> JNull | Some a \<Rightarrow> JStr a)"
  by (simp add: get_meta_def Let_def find_filter split: list.splits)

lemma author_candidates_orders:
  assumes "dict_items e prop_names = prop_names \<or> dict_items e prop_names = rev prop_names"
  shows "author_candidates e page_html
           = found (u ''name'') (u ''author'') page_html
             @ found (u ''property'') (u ''article:author'') page_html
       \<or> author_candidates e page_html
           = found (u ''property'') (u ''article:author'') page_html
             @ found (u ''name'') (u ''author'') page_html"
  using assms by (auto simp: author_candidates_def found_def prop_names_eq)

lemma found_examples:
  "found (u ''name'') (u ''author'')
     (u ''<meta name=\"author\" content=\"Jane Doe\" />'') = [u ''Jane Doe'']"
  "found (u ''property'') (u ''article:author'')
     (u ''<meta name=\"author\" content=\"Jane Doe\" />'') = []"
  "found (u ''name'') (u ''author'')
     (u ''<meta property=\"article:author\" content=\"Jane Doe\" />'') = []"
  "found (u ''property'') (u ''article:author'')
     (u ''<meta property=\"article:author\" content=\"Jane Doe\" />'') = [u ''Jane Doe'']"
  "found (u ''name'') (u ''author'')
     (u ''<meta name=\"author\" content=\"http://a.org/jane\" />\<newline><meta property=\"article:author\" content=\"Jane Doe\" />'')
     = [u ''http://a.org/jane'']"
  "found (u ''property'') (u ''article:author'')
     (u ''<meta name=\"author\" content=\"http://a.org/jane\" />\<newline><meta property=\"article:author\" content=\"Jane Doe\" />'')
     = [u ''Jane Doe'']"
  "found (u ''name'') (u ''author'')
     (u ''<meta name=\"author\" content=\"http://a.org/jane\" />'') = [u ''http://a.org/jane'']"
  "found (u ''property'') (u ''article:author'')
     (u ''<meta name=\"author\" content=\"http://a.org/jane\" />'') = []"
  "found (u ''name'') (u ''author'')
     (u ''<meta name=\"author\" content=\"Jane Doe\">'') = []"
  "found (u ''property'') (u ''article:author'')
     (u ''<meta name=\"author\" content=\"Jane Doe\">'') = []"
  "found (u ''name'') (u ''author'')
     (u ''<meta property=\"og:author\" content=\"Jane Doe\" />'') = []"
  "found (u ''property'') (u ''article:author'')
     (u ''<meta property=\"og:author\" content=\"Jane Doe\" />'') = []"
  by (simp_all add: found_def regex_defs)

lemma reasonable_examples:
  "reasonable_author (u ''Jane Doe'')" "\<not> reasonable_author (u ''http://a.org/jane'')"
  by (simp_all add: reasonable_author_def startswith_def u_def)

text \<open>
  Claim C4, as the code has it. The author is the first candidate, in the order in which
  the tags were scanned, that is not empty and does not start with \<^verbatim>\<open>http\<close>, and \<^verbatim>\<open>None\<close>
  if there is none. A tag \<^verbatim>\<open><meta name="author" content="Jane Doe" />\<close> alone gives
  \<^verbatim>\<open>Jane Doe\<close>, and so does the same tag with \<^verbatim>\<open>property="article:author"\<close>; a candidate
  that starts with \<^verbatim>\<open>http://\<close> is passed over for the next one, or for \<^verbatim>\<open>None\<close>. This
  holds in whichever order the interpreter iterates over the two entries of the dict.
  In these tags a space, one character and \<^verbatim>\<open>>\<close> follow the quoted value, as the pattern
  asks; the tag \<^verbatim>\<open><meta name="author" content="Jane Doe">\<close>, where \<^verbatim>\<open>>\<close> follows at once,
  gives no author.
\<close>

theorem author_is_first_reasonable_candidate:
  assumes "dict_items e prop_names = prop_names \<or> dict_items e prop_names = rev prop_names"
  shows "self_author (get_meta e page_html self)
      = (case List.find reasonable_author (author_candidates e page_html) of
           None \<Rightarrow> JNull | Some a \<Rightarrow> JStr a)
    \<and> self_author (get_meta e (u ''<meta name=\"author\" content=\"Jane Doe\" />'') self)
        = JStr (u ''Jane Doe'')
    \<and> self_author (get_meta e
          (u ''<meta property=\"article:author\" content=\"Jane Doe\" />'') self)
        = JStr (u ''Jane Doe'')
    \<and> self_author (get_meta e
          (u ''<meta name=\"author\" content=\"http://a.org/jane\" />\<newline><meta property=\"article:author\" content=\"Jane Doe\" />'')
          self)
        = JStr (u ''Jane Doe'')
    \<and> self_author (get_meta e
          (u ''<meta name=\"author\" content=\"http://a.org/jane\" />'') self)
        = JNull
    \<and> self_author (get_meta e (u ''<meta name=\"author\" content=\"Jane Doe\">'') self)
        = JNull"
proof (intro conjI)
  show "self_author (get_meta e page_html self)
      = (case List.find reasonable_author (author_candidates e page_html) of
           None \<Rightarrow> JNull | Some a \<Rightarrow> JStr a)"
    by (rule get_meta_author)
  show "self_author (get_meta e (u ''<meta name=\"author\" content=\"Jane Doe\" />'') self)
        = JStr (u ''Jane Doe'')"
    using author_candidates_orders [OF assms, of "u ''<meta name=\"author\" content=\"Jane Doe\" />''"]
    by (auto simp: get_meta_author found_examples reasonable_examples)
  show "self_author (get_meta e
          (u ''<meta property=\"article:author\" content=\"Jane Doe\" />'') self)
        = JStr (u ''Jane Doe'')"
    using author_candidates_orders [OF assms,
        of "u ''<meta property=\"article:author\" content=\"Jane Doe\" />''"]
    by (auto simp: get_meta_author found_examples reasonable_examples)
  show "self_author (get_meta e
          (u ''<meta name=\"author\" content=\"http://a.org/jane\" />\<newline><meta property=\"article:author\" content=\"Jane Doe\" />'')
          self)
        = JStr (u ''Jane Doe'')"
    using author_candidates_orders [OF assms,
        of "u ''<meta name=\"author\" content=\"http://a.org/jane\" />\<newline><meta property=\"article:author\" content=\"Jane Doe\" />''"]
    by (auto simp: get_meta_author found_examples reasonable_examples)
  show "self_author (get_meta e
          (u ''<meta name=\"author\" content=\"http://a.org/jane\" />'') self)
        = JNull"
    using author_candidates_orders [OF assms,
        of "u ''<meta name=\"author\" content=\"http://a.org/jane\" />''"]
    by (auto simp: get_meta_author found_examples reasonable_examples)
  show "self_author (get_meta e (u ''<meta name=\"author\" content=\"Jane Doe\">'') self)
        = JNull"
    using author_candidates_orders [OF assms,
        of "u ''<meta name=\"author\" content=\"Jane Doe\">''"]
    by (auto simp: get_meta_author found_examples)
qed

theorem author_is_first_reasonable_candidate_witness:
  "dict_items sample_env prop_names = prop_names
   \<and> self_author (get_meta sample_env (u ''<meta name=\"author\" content=\"Jane Doe\" />'')
         (new_request (u ''http://a'') (u ''term''))) = JStr (u ''Jane Doe'')"
  using author_is_first_reasonable_candidate [of sample_env "[]" "new_request (u ''http://a'') (u ''term'')"]
  by (simp add: sample_env_def)

theorem jane_doe_tag_not_matched_counterexample:
  "self_author (get_meta sample_env (u ''<meta name=\"author\" content=\"Jane Doe\">'')
      (new_request (u ''http://a'') (u ''term''))) = JNull
   \<and> self_author (get_meta (sample_env\<lparr>dict_items := rev\<rparr>)
        (u ''<meta name=\"author\" content=\"Jane Doe\">'')
        (new_request (u ''http://a'') (u ''term''))) = JNull"
proof -
  have "dict_items e prop_names = prop_names \<or> dict_items e prop_names = rev prop_names
    \<Longrightarrow> self_author (get_meta e (u ''<meta name=\"author\" content=\"Jane Doe\">'') self) = JNull"
    for e self
    using author_candidates_orders [of e "u ''<meta name=\"author\" content=\"Jane Doe\">''"]
    by (auto simp: get_meta_author found_examples)
  then show ?thesis by (simp add: sample_env_def)
qed

lemma og_author_tag_gives_no_author:
  assumes "dict_items e prop_names = prop_names \<or> dict_items e prop_names = rev prop_names"
  shows "self_author (get_meta e (u ''<meta property=\"og:author\" content=\"Jane Doe\" />'') self)
           = JNull"
  using author_candidates_orders [OF assms,
      of "u ''<meta property=\"og:author\" content=\"Jane Doe\" />''"]
  by (auto simp: get_meta_author found_examples)

section \<open>The record of a direct fetch\<close>






end
